theory Spec2Isabelle
  imports Main "HOL-Library.Monad_Syntax" "HOL-Library.Sublist"
begin

section \<open>Data model\<close>

text \<open>
  The relay translates between MQTT messages and OSC packets. Argument values
  (Go's \<^verbatim>\<open>[]interface{}\<close>) are never inspected by the relay: they are copied, handed to
  the JSON encoder or to the OSC encoder. Their type is therefore the parameter \<open>'a\<close> of
  the model. A Go slice is a list; a nil slice and an empty slice are both the empty list
  (the relay only ranges over slices, appends to them and takes their length).
\<close>

text \<open>\<^verbatim>\<open>time.Time\<close>: an instant. The relay only copies it.\<close>

type_synonym Time = int

subsection \<open>Wire packets (package osc)\<close>

text \<open>
  Modelled from the spec: the wire-level packet types of the OSC library, whose source is
  not part of the repository. A message is an address and an argument list; a bundle is a
  time tag, its messages and its nested bundles, each in order. The time tag of a bundle
  is the instant it was created from (\<^verbatim>\<open>osc.NewBundle(t)\<close> stores it,
  \<^verbatim>\<open>bundle.Timetag.Time()\<close> reads it). \<^verbatim>\<open>osc.Packet\<close> is an interface: besides
  messages and bundles the model has one more kind, for any other implementation.
\<close>

datatype 'a osc_Message =
  osc_Message (osc_Address: string) (osc_Arguments: "'a list")

datatype 'a osc_Bundle =
  osc_Bundle (osc_Timetag: Time) (osc_Messages: "'a osc_Message list")
    (osc_Bundles: "'a osc_Bundle list")

datatype 'a osc_Packet = PMessage "'a osc_Message" | PBundle "'a osc_Bundle" | POther

text \<open>Modelled from the spec: \<^verbatim>\<open>osc.NewMessage(addr)\<close>, a message without arguments.\<close>

definition NewMessage :: "string \<Rightarrow> 'a osc_Message" where
  "NewMessage addr = osc_Message addr []"

text \<open>Modelled from the spec: \<^verbatim>\<open>osc.NewBundle(t)\<close>, an empty bundle with time tag \<open>t\<close>.\<close>

definition NewBundle :: "Time \<Rightarrow> 'a osc_Bundle" where
  "NewBundle t = osc_Bundle t [] []"

text \<open>
  Modelled from the spec: \<^verbatim>\<open>b.Append(pck)\<close> adds a message after the bundle's messages
  and a bundle after its nested bundles. For another kind of packet the library returns
  an error, which \<^verbatim>\<open>MakeOSCBundle\<close> ignores, and leaves the bundle as it is.
\<close>

fun Append :: "'a osc_Bundle \<Rightarrow> 'a osc_Packet \<Rightarrow> 'a osc_Bundle" where
  "Append (osc_Bundle t ms bs) (PBundle s) = osc_Bundle t ms (bs @ [s])"
| "Append (osc_Bundle t ms bs) (PMessage m) = osc_Bundle t (ms @ [m]) bs"
| "Append (osc_Bundle t ms bs) POther = osc_Bundle t ms bs"

subsection \<open>Portable (JSON) mirror of a bundle\<close>

text \<open>\<^verbatim>\<open>type OscMessage struct { Address string; Arguments []interface{} }\<close>\<close>

datatype 'a OscMessage =
  OscMessage (Address: string) (Arguments: "'a list")

text \<open>
  \<^verbatim>\<open>type OscBundle struct { Timetag time.Time; Messages []*OscMessage; Bundles []*OscBundle }\<close>
\<close>

datatype 'a OscBundle =
  OscBundle (Timetag: Time) (Messages: "'a OscMessage list") (Bundles: "'a OscBundle list")

section \<open>Bundle codec\<close>

text \<open>
  \<^verbatim>\<open>OscDispatcher.makeBundle\<close>: starts from a new \<^verbatim>\<open>OscBundle\<close>, copies the time tag,
  appends one new \<^verbatim>\<open>OscMessage\<close> per message (first loop) and the translation of each
  nested bundle (second loop). The receiver \<open>d\<close> is not used by the body.
\<close>

fun makeBundle :: "'a osc_Bundle \<Rightarrow> 'a OscBundle" where
  "makeBundle (osc_Bundle tt msgs subs) =
     (let b = OscBundle tt [] [];
          b = foldl (\<lambda>b message.
                (let m = OscMessage (osc_Address message) (osc_Arguments message)
                 in OscBundle (Timetag b) (Messages b @ [m]) (Bundles b))) b msgs;
          b = foldl (\<lambda>b sbundle.
                (let subBundle = makeBundle sbundle
                 in OscBundle (Timetag b) (Messages b) (Bundles b @ [subBundle]))) b subs
      in b)"

text \<open>
  \<^verbatim>\<open>Relay.MakeOSCBundle\<close>: starts from \<^verbatim>\<open>osc.NewBundle(bundle.Timetag)\<close>, appends one
  new message per message, with the arguments assigned after \<^verbatim>\<open>osc.NewMessage\<close>, and the
  translation of each nested bundle. The receiver \<open>r\<close> is not used by the body.
\<close>

fun MakeOSCBundle :: "'a OscBundle \<Rightarrow> 'a osc_Bundle" where
  "MakeOSCBundle (OscBundle tt msgs subs) =
     (let b = NewBundle tt;
          b = foldl (\<lambda>b message.
                (let m = (NewMessage (Address message) :: 'a osc_Message);
                     m = osc_Message (osc_Address m) (Arguments message)
                 in Append b (PMessage m))) b msgs;
          b = foldl (\<lambda>b sbundle.
                (let subBundle = MakeOSCBundle sbundle
                 in Append b (PBundle subBundle))) b subs
      in b)"

section \<open>Bundle codec on the heap\<close>

text \<open>
  The two translations take and return pointers. To state what they do to the objects
  they are given, they are modelled a second time on an explicit heap: a list of objects,
  a pointer being an index into it. \<^verbatim>\<open>new\<close> appends an object; a nil or dangling
  pointer does not load. The objects are the structs of the four Go types; the slices
  \<^verbatim>\<open>Messages\<close> and \<^verbatim>\<open>Bundles\<close> hold pointers.
\<close>

type_synonym ref = nat

datatype 'a object =
    Obj_osc_Message string "'a list"
  | Obj_osc_Bundle Time "ref list" "ref list"
  | Obj_OscMessage string "'a list"
  | Obj_OscBundle Time "ref list" "ref list"

type_synonym 'a heap = "'a object list"

definition new :: "'a heap \<Rightarrow> 'a object \<Rightarrow> 'a heap \<times> ref" where
  "new h obj = (h @ [obj], length h)"

definition load :: "'a heap \<Rightarrow> ref \<Rightarrow> 'a object option" where
  "load h p = (if p < length h then Some (h ! p) else None)"

definition update :: "'a heap \<Rightarrow> ref \<Rightarrow> ('a object \<Rightarrow> 'a object option) \<Rightarrow> 'a heap option" where
  "update h p f =
     (case load h p of
        None \<Rightarrow> None
      | Some obj \<Rightarrow> (case f obj of None \<Rightarrow> None | Some obj' \<Rightarrow> Some (h[p := obj'])))"

text \<open>
  The field assignments of the two functions, on the object they are applied to; an object
  of another type has no such field. \<open>append_Messages\<close> is
  \<^verbatim>\<open>b.Messages = append(b.Messages, m)\<close> of \<^verbatim>\<open>makeBundle\<close> and, on a wire bundle, the
  library's \<^verbatim>\<open>b.Append(m)\<close> for a message (modelled from the spec, as above);
  \<open>append_Bundles\<close> is the same for a nested bundle.
\<close>

fun set_Timetag :: "Time \<Rightarrow> 'a object \<Rightarrow> 'a object option" where
  "set_Timetag t (Obj_OscBundle t0 ms bs) = Some (Obj_OscBundle t ms bs)"
| "set_Timetag t obj = None"

fun set_Address :: "string \<Rightarrow> 'a object \<Rightarrow> 'a object option" where
  "set_Address a (Obj_OscMessage a0 args) = Some (Obj_OscMessage a args)"
| "set_Address a obj = None"

fun set_Arguments :: "'a list \<Rightarrow> 'a object \<Rightarrow> 'a object option" where
  "set_Arguments args (Obj_OscMessage a args0) = Some (Obj_OscMessage a args)"
| "set_Arguments args (Obj_osc_Message a args0) = Some (Obj_osc_Message a args)"
| "set_Arguments args obj = None"

fun append_Messages :: "ref \<Rightarrow> 'a object \<Rightarrow> 'a object option" where
  "append_Messages m (Obj_OscBundle t ms bs) = Some (Obj_OscBundle t (ms @ [m]) bs)"
| "append_Messages m (Obj_osc_Bundle t ms bs) = Some (Obj_osc_Bundle t (ms @ [m]) bs)"
| "append_Messages m obj = None"

fun append_Bundles :: "ref \<Rightarrow> 'a object \<Rightarrow> 'a object option" where
  "append_Bundles s (Obj_OscBundle t ms bs) = Some (Obj_OscBundle t ms (bs @ [s]))"
| "append_Bundles s (Obj_osc_Bundle t ms bs) = Some (Obj_osc_Bundle t ms (bs @ [s]))"
| "append_Bundles s obj = None"

text \<open>A \<^verbatim>\<open>for ... range\<close> loop over a slice whose body may panic.\<close>

fun range_loop :: "('x \<Rightarrow> 's \<Rightarrow> 's option) \<Rightarrow> 'x list \<Rightarrow> 's \<Rightarrow> 's option" where
  "range_loop body [] s = Some s"
| "range_loop body (x # xs) s =
     (case body x s of None \<Rightarrow> None | Some s' \<Rightarrow> range_loop body xs s')"

text \<open>The zero value of \<^verbatim>\<open>time.Time\<close>, which \<^verbatim>\<open>new(OscBundle)\<close> holds.\<close>

definition zero_Time :: Time where "zero_Time = 0"

text \<open>
  The body of the first loop of \<^verbatim>\<open>makeBundle\<close>: \<^verbatim>\<open>m := new(OscMessage)\<close>, the two
  assignments from \<^verbatim>\<open>message\<close>, and the append to \<^verbatim>\<open>b.Messages\<close>.
\<close>

definition makeBundle_message :: "ref \<Rightarrow> ref \<Rightarrow> 'a heap \<Rightarrow> 'a heap option" where
  "makeBundle_message b message h =
     (case new h (Obj_OscMessage [] []) of
        (h, m) \<Rightarrow>
          (case load h message of
             Some (Obj_osc_Message address arguments) \<Rightarrow>
               do {
                 h \<leftarrow> update h m (set_Address address);
                 h \<leftarrow> update h m (set_Arguments arguments);
                 update h b (append_Messages m)
               }
           | _ \<Rightarrow> None))"

text \<open>
  The body of the second loop of both functions: translate the nested bundle, append the
  result to the bundles of \<open>b\<close>.
\<close>

definition append_sub ::
  "('a heap \<Rightarrow> ref \<Rightarrow> ('a heap \<times> ref) option) \<Rightarrow> ref \<Rightarrow> ref \<Rightarrow> 'a heap \<Rightarrow> 'a heap option"
where
  "append_sub translate b sbundle h =
     do {
       (h, subBundle) \<leftarrow> translate h sbundle;
       update h b (append_Bundles subBundle)
     }"

text \<open>
  \<^verbatim>\<open>OscDispatcher.makeBundle\<close> on the heap. The recursion follows pointers, so it is
  bounded by fuel: \<open>None\<close> is a panic (nil pointer) or a recursion deeper than the fuel.
\<close>

fun makeBundle_h :: "nat \<Rightarrow> 'a heap \<Rightarrow> ref \<Rightarrow> ('a heap \<times> ref) option" where
  "makeBundle_h 0 h bundle = None"
| "makeBundle_h (Suc fuel) h bundle =
     (case new h (Obj_OscBundle zero_Time [] []) of
        (h, b) \<Rightarrow>
          (case load h bundle of
             Some (Obj_osc_Bundle tt msgs subs) \<Rightarrow>
               do {
                 h \<leftarrow> update h b (set_Timetag tt);
                 h \<leftarrow> range_loop (makeBundle_message b) msgs h;
                 h \<leftarrow> range_loop (append_sub (makeBundle_h fuel) b) subs h;
                 Some (h, b)
               }
           | _ \<Rightarrow> None))"

text \<open>
  The body of the first loop of \<^verbatim>\<open>MakeOSCBundle\<close>: \<^verbatim>\<open>m := osc.NewMessage(message.Address)\<close>,
  the assignment of the arguments, and \<^verbatim>\<open>b.Append(m)\<close>.
\<close>

definition MakeOSCBundle_message :: "ref \<Rightarrow> ref \<Rightarrow> 'a heap \<Rightarrow> 'a heap option" where
  "MakeOSCBundle_message b message h =
     (case load h message of
        Some (Obj_OscMessage address arguments) \<Rightarrow>
          (case new h (Obj_osc_Message address []) of
             (h, m) \<Rightarrow>
               do {
                 h \<leftarrow> update h m (set_Arguments arguments);
                 update h b (append_Messages m)
               })
      | _ \<Rightarrow> None)"

text \<open>\<^verbatim>\<open>Relay.MakeOSCBundle\<close> on the heap; \<^verbatim>\<open>osc.NewBundle\<close> allocates the bundle.\<close>

fun MakeOSCBundle_h :: "nat \<Rightarrow> 'a heap \<Rightarrow> ref \<Rightarrow> ('a heap \<times> ref) option" where
  "MakeOSCBundle_h 0 h bundle = None"
| "MakeOSCBundle_h (Suc fuel) h bundle =
     (case load h bundle of
        Some (Obj_OscBundle tt msgs subs) \<Rightarrow>
          (case new h (Obj_osc_Bundle tt [] []) of
             (h, b) \<Rightarrow>
               do {
                 h \<leftarrow> range_loop (MakeOSCBundle_message b) msgs h;
                 h \<leftarrow> range_loop (append_sub (MakeOSCBundle_h fuel) b) subs h;
                 Some (h, b)
               })
      | _ \<Rightarrow> None)"

text \<open>
  The pointer \<open>p\<close> holds the bundle \<open>w\<close> in the heap \<open>h\<close>: the object at \<open>p\<close> has the
  time tag of \<open>w\<close>, its message pointers hold the messages of \<open>w\<close> and its bundle pointers
  hold the nested bundles, in order. The bound \<open>lo\<close> says where the objects lie: every
  pointer of the structure is at least \<open>lo\<close>.
\<close>

definition wire_msg_at :: "nat \<Rightarrow> 'a heap \<Rightarrow> ref \<Rightarrow> 'a osc_Message \<Rightarrow> bool" where
  "wire_msg_at lo h q m =
     (lo \<le> q \<and> load h q = Some (Obj_osc_Message (osc_Address m) (osc_Arguments m)))"

definition port_msg_at :: "nat \<Rightarrow> 'a heap \<Rightarrow> ref \<Rightarrow> 'a OscMessage \<Rightarrow> bool" where
  "port_msg_at lo h q m =
     (lo \<le> q \<and> load h q = Some (Obj_OscMessage (Address m) (Arguments m)))"

fun wire_at :: "nat \<Rightarrow> 'a heap \<Rightarrow> ref \<Rightarrow> 'a osc_Bundle \<Rightarrow> bool"
  and wire_all_at :: "nat \<Rightarrow> 'a heap \<Rightarrow> ref list \<Rightarrow> 'a osc_Bundle list \<Rightarrow> bool" where
  "wire_at lo h p (osc_Bundle tt ms bs) =
     (lo \<le> p \<and>
      (case load h p of
         Some (Obj_osc_Bundle tt' mrefs brefs) \<Rightarrow>
           tt' = tt \<and> list_all2 (wire_msg_at lo h) mrefs ms \<and> wire_all_at lo h brefs bs
       | _ \<Rightarrow> False))"
| "wire_all_at lo h [] [] = True"
| "wire_all_at lo h (q # qs) (b # bs) = (wire_at lo h q b \<and> wire_all_at lo h qs bs)"
| "wire_all_at lo h [] (b # bs) = False"
| "wire_all_at lo h (q # qs) [] = False"

fun port_at :: "nat \<Rightarrow> 'a heap \<Rightarrow> ref \<Rightarrow> 'a OscBundle \<Rightarrow> bool"
  and port_all_at :: "nat \<Rightarrow> 'a heap \<Rightarrow> ref list \<Rightarrow> 'a OscBundle list \<Rightarrow> bool" where
  "port_at lo h p (OscBundle tt ms bs) =
     (lo \<le> p \<and>
      (case load h p of
         Some (Obj_OscBundle tt' mrefs brefs) \<Rightarrow>
           tt' = tt \<and> list_all2 (port_msg_at lo h) mrefs ms \<and> port_all_at lo h brefs bs
       | _ \<Rightarrow> False))"
| "port_all_at lo h [] [] = True"
| "port_all_at lo h (q # qs) (b # bs) = (port_at lo h q b \<and> port_all_at lo h qs bs)"
| "port_all_at lo h [] (b # bs) = False"
| "port_all_at lo h (q # qs) [] = False"

text \<open>The nesting depth of a bundle, the fuel its translation needs.\<close>

fun wire_depth :: "'a osc_Bundle \<Rightarrow> nat" where
  "wire_depth (osc_Bundle tt ms bs) = Suc (foldr max (map wire_depth bs) 0)"

fun portable_depth :: "'a OscBundle \<Rightarrow> nat" where
  "portable_depth (OscBundle tt ms bs) = Suc (foldr max (map portable_depth bs) 0)"

text \<open>
  Two heaps agree from \<open>lo\<close> on: the second has every object of the first, and the same
  object at every pointer from \<open>lo\<close> on. From \<open>0\<close> on, the first is a prefix of the second.
\<close>

definition agree :: "nat \<Rightarrow> 'a heap \<Rightarrow> 'a heap \<Rightarrow> bool" where
  "agree lo h h' = (length h \<le> length h' \<and> (\<forall>q. lo \<le> q \<and> q < length h \<longrightarrow> h' ! q = h ! q))"

section \<open>Relay configuration and runtime state\<close>

text \<open>
  \<^verbatim>\<open>type LogLevel int\<close> and the four constants the source declares by \<^verbatim>\<open>iota\<close>. The
  log level of a relay is whatever integer the configuration gives, also a negative one
  or one above 3.
\<close>

type_synonym LogLevel = int

definition ErrorLog :: LogLevel where
  "ErrorLog = 0"

definition ReceiveLog :: LogLevel where
  "ReceiveLog = 1"

definition SendLog :: LogLevel where
  "SendLog = 2"

definition DebugLog :: LogLevel where
  "DebugLog = 3"

text \<open>\<^verbatim>\<open>type RelayOscSubscription struct\<close>; the interval is a \<^verbatim>\<open>time.Duration\<close>.\<close>

record 'a RelayOscSubscription =
  Command :: string
  Payload :: "'a list"
  Interval :: int

text \<open>\<^verbatim>\<open>type RelayCommand struct\<close>.\<close>

record 'a RelayCommand =
  Command :: string
  MqttTopic :: string
  MqttSubTopic :: string
  DisallowPayload :: bool
  DefaultPayload :: "'a list"

text \<open>
  Sockets are named by numbers; a resolved UDP address is an IP and a port. The OSC
  server of a relay is represented by its listen address, the bind address and port from
  which \<^verbatim>\<open>Start\<close> formats \<^verbatim>\<open>Addr\<close>.
\<close>

type_synonym Conn = nat
type_synonym UDPAddr = "string \<times> int"
type_synonym osc_Server = "string \<times> int"

text \<open>
  \<^verbatim>\<open>type Relay struct\<close>: the configuration fields, then the runtime fields
  \<^verbatim>\<open>OscServer\<close> and \<^verbatim>\<open>OscServerConn\<close> (\<open>None\<close> is nil). The fields \<^verbatim>\<open>MqttClient\<close>
  and \<^verbatim>\<open>OscClient\<close> are left out: \<^verbatim>\<open>Start\<close> assigns the MQTT client before it
  subscribes or serves, so every \<^verbatim>\<open>Publish\<close> of the handlers below finds it, and the
  OSC client is never read. Ports are Go \<^verbatim>\<open>int\<close>s, only ever compared.
\<close>

record 'a Relay =
  MqttHost :: string
  MqttPort :: int
  MqttClientId :: string
  MqttUser :: string
  MqttPassword :: string
  MqttTopic :: string
  MqttDisableConfigSend :: bool
  OscHost :: string
  OscPort :: int
  OscBindAddr :: string
  OscBindPort :: int
  OscDisallowArbritaryCommand :: bool
  Commands :: "'a RelayCommand list"
  OscSubscriptions :: "'a RelayOscSubscription list"
  LogLevel :: LogLevel
  OscServer :: "osc_Server option"
  OscServerConn :: "Conn option"

text \<open>\<^verbatim>\<open>mqtt.Message\<close>: the topic and the payload bytes of an inbound broker message.\<close>

record mqtt_Message =
  Topic :: string
  Payload :: string

section \<open>Environment and effects\<close>

text \<open>
  The library and system calls whose results the relay branches on are parameters of the
  model, collected in one record; an error result is \<open>Inl\<close> of its text.
  \<^item> \<open>Unmarshal_arguments\<close>: \<^verbatim>\<open>json.Unmarshal(payload, &arguments)\<close> into a nil
    \<^verbatim>\<open>[]interface{}\<close>;
  \<^item> \<open>Unmarshal_bundle\<close>: \<^verbatim>\<open>json.Unmarshal(payload, bundle)\<close> into a new \<^verbatim>\<open>OscBundle\<close>;
    the result is a bundle value, so a decoded bundle whose message or bundle lists hold
    nil pointers (a JSON \<open>null\<close> entry) is not represented here; the heap model of the
    codec above covers nil pointers;
  \<^item> \<open>Marshal_arguments\<close>, \<open>Marshal_bundle\<close>, \<open>Marshal_relay\<close>: \<^verbatim>\<open>json.Marshal\<close>;
  \<^item> \<open>ResolveUDPAddr\<close>: \<^verbatim>\<open>net.ResolveUDPAddr("udp", fmt.Sprintf("%s:%d", host, port))\<close>;
  \<^item> \<open>MarshalBinary\<close>: the OSC encoding of a packet;
  \<^item> \<open>WriteTo_error\<close>: the error, if any, of \<^verbatim>\<open>OscServerConn.WriteTo(data, addr)\<close>;
  \<^item> \<open>DialUDP\<close>: \<^verbatim>\<open>net.DialUDP("udp", nil, addr)\<close>, a socket on an unused source port;
  \<^item> \<open>Connect_error\<close>: the error, if any, of the broker's connect token, for the
    broker host and port, client id, user name and password of the options;
  \<^item> \<open>Subscribe_error\<close>: the error, if any, of the subscribe token for a topic;
  \<^item> \<open>ListenPacket\<close>: \<^verbatim>\<open>net.ListenPacket("udp", r.OscServer.Addr)\<close>, the bound socket.
\<close>

record 'a Env =
  Unmarshal_arguments :: "string \<Rightarrow> string + 'a list"
  Unmarshal_bundle :: "string \<Rightarrow> string + 'a OscBundle"
  Marshal_arguments :: "'a list \<Rightarrow> string + string"
  Marshal_bundle :: "'a OscBundle \<Rightarrow> string + string"
  Marshal_relay :: "'a Relay \<Rightarrow> string + string"
  ResolveUDPAddr :: "string \<Rightarrow> int \<Rightarrow> string + UDPAddr"
  MarshalBinary :: "'a osc_Packet \<Rightarrow> string + string"
  WriteTo_error :: "Conn \<Rightarrow> string \<Rightarrow> UDPAddr \<Rightarrow> string option"
  DialUDP :: "UDPAddr \<Rightarrow> string + Conn"
  Connect_error :: "string \<Rightarrow> int \<Rightarrow> string \<Rightarrow> string \<Rightarrow> string \<Rightarrow> string option"
  Subscribe_error :: "string \<Rightarrow> string option"
  ListenPacket :: "osc_Server \<Rightarrow> string + Conn"

text \<open>
  What a handler does to the outside, in order: a line written to the log (kept as the
  level of the entry, the format and the arguments of \<^verbatim>\<open>fmt.Sprintf\<close>), a publish on
  the broker (topic, QoS, retained, payload), a datagram written through the server's
  socket, the dial, write and close of a one-off socket, the connect to the broker (host,
  port, client id, user name, password), a subscription (topic, QoS) whose messages go
  to \<^verbatim>\<open>MqttOnEvent\<close>, the bind of the server's socket, and the start of the library's
  receive loop on a socket, which hands every packet it receives to \<^verbatim>\<open>Dispatch\<close>.
\<close>

datatype 'a fmtarg = FString string | FArguments "'a list" | FTime Time

datatype 'a effect =
    LogEntry LogLevel string "'a fmtarg list"
  | Publish string nat bool string
  | WriteTo Conn string UDPAddr
  | Dial UDPAddr
  | Write Conn string
  | Close Conn
  | Connect string int string string string
  | Subscribe string nat
  | Listen osc_Server Conn
  | Serve Conn

text \<open>
  A call returns its value or panics (a method call on the nil \<^verbatim>\<open>OscServerConn\<close>).
  Inside a handler, a statement lets the handler go on, returns from it, or panics.
\<close>

datatype 'v outcome = Returns 'v | Panics

datatype flow = Next | Return | Panic

fun finish :: "flow \<Rightarrow> unit outcome" where
  "finish Next = Returns ()"
| "finish Return = Returns ()"
| "finish Panic = Panics"

text \<open>The datagrams a trace sends to the OSC peer, in order.\<close>

fun datagram :: "'a effect \<Rightarrow> string list" where
  "datagram (WriteTo c d a) = [d]"
| "datagram (Write c d) = [d]"
| "datagram (LogEntry l f xs) = []"
| "datagram (Publish t q r p) = []"
| "datagram (Dial a) = []"
| "datagram (Close c) = []"
| "datagram (Connect h p c u w) = []"
| "datagram (Subscribe t q) = []"
| "datagram (Listen a c) = []"
| "datagram (Serve c) = []"

definition outbound :: "'a effect list \<Rightarrow> string list" where
  "outbound es = concat (map datagram es)"

text \<open>The error entries of a trace.\<close>

fun is_error_entry :: "'a effect \<Rightarrow> bool" where
  "is_error_entry (LogEntry l f xs) = (l = ErrorLog)"
| "is_error_entry (Publish t q r p) = False"
| "is_error_entry (WriteTo c d a) = False"
| "is_error_entry (Dial a) = False"
| "is_error_entry (Write c d) = False"
| "is_error_entry (Close c) = False"
| "is_error_entry (Connect h p c u w) = False"
| "is_error_entry (Subscribe t q) = False"
| "is_error_entry (Listen a c) = False"
| "is_error_entry (Serve c) = False"

definition error_entries :: "'a effect list \<Rightarrow> 'a effect list" where
  "error_entries es = filter is_error_entry es"

text \<open>The socket operations of a trace.\<close>

fun is_socket_op :: "'a effect \<Rightarrow> bool" where
  "is_socket_op (WriteTo c d a) = True"
| "is_socket_op (Dial a) = True"
| "is_socket_op (Write c d) = True"
| "is_socket_op (Close c) = True"
| "is_socket_op (Listen a c) = True"
| "is_socket_op (Serve c) = True"
| "is_socket_op (LogEntry l f xs) = False"
| "is_socket_op (Publish t q r p) = False"
| "is_socket_op (Connect h p c u w) = False"
| "is_socket_op (Subscribe t q) = False"

definition socket_ops :: "'a effect list \<Rightarrow> 'a effect list" where
  "socket_ops es = filter is_socket_op es"

text \<open>The effects by which packets are received: the bind of a socket and the receive
  loop on one.\<close>

fun is_receive_op :: "'a effect \<Rightarrow> bool" where
  "is_receive_op (Listen a c) = True"
| "is_receive_op (Serve c) = True"
| "is_receive_op (WriteTo c d a) = False"
| "is_receive_op (Dial a) = False"
| "is_receive_op (Write c d) = False"
| "is_receive_op (Close c) = False"
| "is_receive_op (LogEntry l f xs) = False"
| "is_receive_op (Publish t q r p) = False"
| "is_receive_op (Connect h p c u w) = False"
| "is_receive_op (Subscribe t q) = False"

definition receive_ops :: "'a effect list \<Rightarrow> 'a effect list" where
  "receive_ops es = filter is_receive_op es"

section \<open>String helpers of the Go library\<close>

text \<open>\<^verbatim>\<open>strings.HasPrefix(s, prefix)\<close>.\<close>

definition HasPrefix :: "string \<Rightarrow> string \<Rightarrow> bool" where
  "HasPrefix s pre = (length s \<ge> length pre \<and> take (length pre) s = pre)"

text \<open>
  \<^verbatim>\<open>strings.Replace(s, old, rep, 1)\<close>: the leftmost occurrence of \<open>old\<close> in \<open>s\<close> is
  replaced by \<open>rep\<close>; without an occurrence \<open>s\<close> is returned.
\<close>

fun Replace1 :: "string \<Rightarrow> string \<Rightarrow> string \<Rightarrow> string" where
  "Replace1 [] old rep = (if old = [] then rep else [])"
| "Replace1 (c # cs) old rep =
     (if HasPrefix (c # cs) old then rep @ drop (length old) (c # cs)
      else c # Replace1 cs old rep)"

section \<open>Logging and sending\<close>

text \<open>\<^verbatim>\<open>Relay.Log\<close>: prints when the level of the entry is at most the relay's.\<close>

definition Log :: "'a Relay \<Rightarrow> LogLevel \<Rightarrow> string \<Rightarrow> 'a fmtarg list \<Rightarrow> 'a effect list" where
  "Log r l format args =
     (if l \<le> LogLevel r then [LogEntry l format args] else [])"

text \<open>
  \<^verbatim>\<open>Relay.OscSend\<close>. A nil packet is a no-op. Resolve and encode errors are returned.
  With a server, the datagram is written through \<^verbatim>\<open>OscServerConn\<close> and the write's error
  is returned. Without one, a socket is dialled, written to and closed by the deferred
  \<^verbatim>\<open>Close\<close>; \<^verbatim>\<open>conn, err := net.DialUDP(...)\<close> declares a new \<^verbatim>\<open>err\<close> in the block, so
  the error of \<^verbatim>\<open>conn.Write\<close> is assigned to that one and the function returns the
  outer \<^verbatim>\<open>err\<close>, which is nil there.
\<close>

definition OscSend ::
  "'a Env \<Rightarrow> 'a Relay \<Rightarrow> 'a osc_Packet option \<Rightarrow> 'a effect list \<times> string option outcome"
where
  "OscSend env r packet =
     (case packet of
        None \<Rightarrow> ([], Returns None)
      | Some p \<Rightarrow>
          (let l1 = (case p of
                  PMessage message \<Rightarrow>
                    Log r SendLog ''-> [OSC] %s: %s''
                      [FString (osc_Address message), FArguments (osc_Arguments message)]
                | PBundle bundle \<Rightarrow>
                    Log r SendLog ''-> [OSC] Bundle %s'' [FTime (osc_Timetag bundle)]
                | POther \<Rightarrow> [])
           in case ResolveUDPAddr env (OscHost r) (OscPort r) of
                Inl err \<Rightarrow> (l1, Returns (Some err))
              | Inr addr \<Rightarrow>
                  (case MarshalBinary env p of
                     Inl err \<Rightarrow> (l1, Returns (Some err))
                   | Inr data \<Rightarrow>
                       (let l2 = (if LogLevel r \<ge> DebugLog
                              then Log r DebugLog ''-> [OSC] Binary %s''
                                [FString (map (\<lambda>c. if c = CHR 0x00 then CHR ''~'' else c) data)]
                              else [])
                        in if OscServer r \<noteq> None then
                             (case OscServerConn r of
                                None \<Rightarrow> (l1 @ l2, Panics)
                              | Some c \<Rightarrow>
                                  (l1 @ l2 @ [WriteTo c data addr],
                                   Returns (WriteTo_error env c data addr)))
                           else
                             (case DialUDP env addr of
                                Inl err \<Rightarrow> (l1 @ l2 @ [Dial addr], Returns (Some err))
                              | Inr conn \<Rightarrow>
                                  (l1 @ l2 @ [Dial addr, Write conn data, Close conn],
                                   Returns None))))))"

text \<open>
  The pattern \<^verbatim>\<open>err := r.OscSend(p); if err != nil { r.Log(ErrorLog, "Send Error: %s", err) }\<close>,
  which ends the mapping loop's body, both generic branches and the subscription tick.
\<close>

definition sendAndLog :: "'a Env \<Rightarrow> 'a Relay \<Rightarrow> 'a osc_Packet \<Rightarrow> 'a effect list \<times> flow" where
  "sendAndLog env r p =
     (case OscSend env r (Some p) of
        (es, Panics) \<Rightarrow> (es, Panic)
      | (es, Returns None) \<Rightarrow> (es, Next)
      | (es, Returns (Some err)) \<Rightarrow> (es @ Log r ErrorLog ''Send Error: %s'' [FString err], Next))"

text \<open>
  \<^verbatim>\<open>Relay.SendStatus\<close>. A JSON error is logged and the function goes on to publish
  the (then nil) configuration.
\<close>

definition SendStatus :: "'a Env \<Rightarrow> 'a Relay \<Rightarrow> 'a effect list" where
  "SendStatus env r =
     (if MqttDisableConfigSend r then []
      else (case Marshal_relay env r of
              Inl err \<Rightarrow>
                Log r ErrorLog ''Json Error: %s'' [FString err]
                  @ [Publish (Relay.MqttTopic r @ ''/status'') 0 True []]
            | Inr config \<Rightarrow> [Publish (Relay.MqttTopic r @ ''/status'') 0 True config]))"

section \<open>Topic router\<close>

text \<open>The condition of the mapping loop: the topic is the mapping's absolute topic, or
  the mapping has a sub-topic and the topic is the relay's topic, a slash and it.\<close>

definition commandMatches :: "'a Relay \<Rightarrow> string \<Rightarrow> 'a RelayCommand \<Rightarrow> bool" where
  "commandMatches r topic cmd =
     (topic = RelayCommand.MqttTopic cmd \<or>
      (MqttSubTopic cmd \<noteq> [] \<and> topic = Relay.MqttTopic r @ ''/'' @ MqttSubTopic cmd))"

text \<open>
  The body of the loop over \<^verbatim>\<open>r.Commands\<close> in \<^verbatim>\<open>MqttOnEvent\<close>, for one mapping. A
  decode error is logged and followed by \<^verbatim>\<open>return\<close>, which leaves the handler.
\<close>

definition commandBody ::
  "'a Env \<Rightarrow> 'a Relay \<Rightarrow> mqtt_Message \<Rightarrow> 'a RelayCommand \<Rightarrow> 'a effect list \<times> flow"
where
  "commandBody env r message cmd =
     (if commandMatches r (Topic message) cmd then
        (let oscMessage = (NewMessage (RelayCommand.Command cmd) :: 'a osc_Message);
             decoded =
               (if \<not> DisallowPayload cmd \<and> length (mqtt_Message.Payload message) \<noteq> 0 then
                  Unmarshal_arguments env (mqtt_Message.Payload message)
                else if length (DefaultPayload cmd) \<noteq> 0 then Inr (DefaultPayload cmd)
                else Inr [])
         in case decoded of
              Inl err \<Rightarrow> (Log r ErrorLog ''Json Error: %s'' [FString err], Return)
            | Inr arguments \<Rightarrow>
                (let oscMessage = osc_Message (osc_Address oscMessage) arguments
                 in sendAndLog env r (PMessage oscMessage)))
      else ([], Next))"

fun commandLoop ::
  "'a Env \<Rightarrow> 'a Relay \<Rightarrow> mqtt_Message \<Rightarrow> 'a RelayCommand list \<Rightarrow> 'a effect list \<times> flow"
where
  "commandLoop env r message [] = ([], Next)"
| "commandLoop env r message (cmd # cmds) =
     (case commandBody env r message cmd of
        (es, Next) \<Rightarrow>
          (case commandLoop env r message cmds of (es', f) \<Rightarrow> (es @ es', f))
      | (es, Return) \<Rightarrow> (es, Return)
      | (es, Panic) \<Rightarrow> (es, Panic))"

text \<open>
  \<^verbatim>\<open>Relay.MqttOnEvent\<close>: the receive log, the mapping loop, then the chain
  \<^verbatim>\<open>if HasPrefix(send) ... else if bundle/send ... else if status/check\<close>.
\<close>

definition MqttOnEvent ::
  "'a Env \<Rightarrow> 'a Relay \<Rightarrow> mqtt_Message \<Rightarrow> 'a effect list \<times> unit outcome"
where
  "MqttOnEvent env r message =
     (let l0 = Log r ReceiveLog ''<- [MQTT] %s: %s\<newline>''
                 [FString (Topic message), FString (mqtt_Message.Payload message)]
      in case commandLoop env r message (Commands r) of
           (es, Return) \<Rightarrow> (l0 @ es, Returns ())
         | (es, Panic) \<Rightarrow> (l0 @ es, Panics)
         | (es, Next) \<Rightarrow>
             (if HasPrefix (Topic message) (Relay.MqttTopic r @ ''/send'') then
                (if OscDisallowArbritaryCommand r then
                   (l0 @ es @ Log r ErrorLog ''Arbritary commands are disabled on this relay.'' [],
                    Returns ())
                 else
                   (let cmd = Replace1 (Topic message) (Relay.MqttTopic r @ ''/send'') [];
                        cmd = (if cmd = [] then ''/'' else cmd);
                        decoded =
                          (if length (mqtt_Message.Payload message) \<noteq> 0 then
                             Unmarshal_arguments env (mqtt_Message.Payload message)
                           else Inr [])
                    in case decoded of
                         Inl err \<Rightarrow>
                           (l0 @ es @ Log r ErrorLog ''Json Error: %s'' [FString err], Returns ())
                       | Inr arguments \<Rightarrow>
                           (let oscMessage = (NewMessage cmd :: 'a osc_Message);
                                oscMessage = osc_Message (osc_Address oscMessage) arguments
                            in case sendAndLog env r (PMessage oscMessage) of
                                 (es', f) \<Rightarrow> (l0 @ es @ es', finish f))))
              else if Topic message = Relay.MqttTopic r @ ''/bundle/send'' then
                (if OscDisallowArbritaryCommand r then
                   (l0 @ es @ Log r ErrorLog ''Arbritary commands are disabled on this relay.'' [],
                    Returns ())
                 else
                   (case Unmarshal_bundle env (mqtt_Message.Payload message) of
                      Inl err \<Rightarrow>
                        (l0 @ es @ Log r ErrorLog ''Json Error: %s'' [FString err], Returns ())
                    | Inr bundle \<Rightarrow>
                        (let b = MakeOSCBundle bundle
                         in case sendAndLog env r (PBundle b) of
                              (es', f) \<Rightarrow> (l0 @ es @ es', finish f))))
              else if Topic message = Relay.MqttTopic r @ ''/status/check'' then
                (l0 @ es @ SendStatus env r, Returns ())
              else (l0 @ es, Returns ())))"

section \<open>Inbound OSC packets\<close>

text \<open>
  \<^verbatim>\<open>OscDispatcher.Dispatch\<close>, with \<open>r\<close> the dispatcher's relay; \<open>None\<close> is the nil
  packet. Broker publishes use QoS 0 and the retain flag.
\<close>

definition Dispatch :: "'a Env \<Rightarrow> 'a Relay \<Rightarrow> 'a osc_Packet option \<Rightarrow> 'a effect list" where
  "Dispatch env r packet =
     (case packet of
        None \<Rightarrow> []
      | Some POther \<Rightarrow> Log r ErrorLog ''Unknown OSC packet received.'' []
      | Some (PMessage message) \<Rightarrow>
          Log r ReceiveLog ''<- [OSC] %s: %s''
            [FString (osc_Address message), FArguments (osc_Arguments message)]
          @ (let topic = Relay.MqttTopic r @ ''/cmd'' @ osc_Address message
             in case Marshal_arguments env (osc_Arguments message) of
                  Inl err \<Rightarrow> Log r ErrorLog ''Json Encode: %s'' [FString err]
                | Inr data \<Rightarrow>
                    [Publish topic 0 True data]
                    @ Log r SendLog ''-> [MQTT] %s: %s'' [FString topic, FString data])
      | Some (PBundle bundle) \<Rightarrow>
          (let b = makeBundle bundle
           in Log r ReceiveLog ''<- [OSC] Bundle %s'' [FTime (Timetag b)]
              @ (let topic = Relay.MqttTopic r @ ''/bundle''
                 in case Marshal_bundle env b of
                      Inl err \<Rightarrow> Log r ErrorLog ''Json Encode: %s'' [FString err]
                    | Inr data \<Rightarrow>
                        [Publish topic 0 True data]
                        @ Log r SendLog ''-> [MQTT] %s: %s'' [FString topic, FString data])))"

section \<open>Starting a relay\<close>

text \<open>
  \<^verbatim>\<open>Start\<close> launches goroutines. A goroutine is represented by a task: the OSC server
  task, or the ticker task of one subscription. What a task does when it runs is a
  function of its own below; in which order tasks and handlers run is not part of the
  model.
\<close>

datatype 'a task = ServerTask | SubscriptionTask "'a RelayOscSubscription"

text \<open>\<^verbatim>\<open>Relay.MqttSubscribe\<close>.\<close>

definition MqttSubscribe :: "'a Env \<Rightarrow> 'a Relay \<Rightarrow> string \<Rightarrow> 'a effect list" where
  "MqttSubscribe env r topic =
     Log r DebugLog ''Subscribing MQTT: %s'' [FString topic]
     @ [Subscribe topic 0]
     @ (case Subscribe_error env topic of
          None \<Rightarrow> []
        | Some err \<Rightarrow> Log r ErrorLog ''MQTT Subscribe Error: %s'' [FString err])"

text \<open>
  \<^verbatim>\<open>Relay.Start\<close>, up to its return: the effects, and either the text of the fatal
  connect error (\<^verbatim>\<open>log.Fatalf\<close> ends the process) or the relay with its server set,
  and the tasks launched. The server is set exactly when a bind address and a bind port
  are configured.
\<close>

definition Start :: "'a Env \<Rightarrow> 'a Relay \<Rightarrow> 'a effect list \<times> (string + 'a Relay \<times> 'a task list)" where
  "Start env r =
     (let l0 = Log r DebugLog ''Connecting to MQTT'' []
               @ [Connect (MqttHost r) (MqttPort r) (MqttClientId r) (MqttUser r) (MqttPassword r)]
      in case Connect_error env (MqttHost r) (MqttPort r) (MqttClientId r) (MqttUser r)
                (MqttPassword r) of
           Some err \<Rightarrow> (l0, Inl err)
         | None \<Rightarrow>
             (let l1 = MqttSubscribe env r (Relay.MqttTopic r @ ''/send/#'')
                       @ MqttSubscribe env r (Relay.MqttTopic r @ ''/bundle/send'')
                       @ MqttSubscribe env r (Relay.MqttTopic r @ ''/status/check'');
                  l2 = concat (map (\<lambda>cmd.
                         (if RelayCommand.MqttTopic cmd \<noteq> []
                          then MqttSubscribe env r (RelayCommand.MqttTopic cmd) else [])
                         @ (if MqttSubTopic cmd \<noteq> []
                            then MqttSubscribe env r (Relay.MqttTopic r @ ''/'' @ MqttSubTopic cmd)
                            else [])) (Commands r));
                  server = (OscBindAddr r \<noteq> [] \<and> OscBindPort r \<noteq> 0);
                  r = (if server then r\<lparr>OscServer := Some (OscBindAddr r, OscBindPort r)\<rparr>
                       else r);
                  tasks = (if server then [ServerTask] else [])
                          @ map SubscriptionTask (OscSubscriptions r)
              in (l0 @ l1 @ l2 @ SendStatus env r, Inr (r, tasks))))"

text \<open>
  The server task, up to its call of the library's \<^verbatim>\<open>Serve\<close>: it binds the socket,
  stores it in \<^verbatim>\<open>OscServerConn\<close> and serves on it. A bind error is fatal.
\<close>

definition serverTask :: "'a Env \<Rightarrow> 'a Relay \<Rightarrow> 'a effect list \<times> (string + 'a Relay) outcome" where
  "serverTask env r =
     (let l0 = Log r DebugLog ''Starting OSC Server'' []
      in case OscServer r of
           None \<Rightarrow> (l0, Panics)
         | Some a \<Rightarrow>
             (case ListenPacket env a of
                Inl err \<Rightarrow> (l0, Returns (Inl err))
              | Inr conn \<Rightarrow>
                  (l0 @ [Listen a conn, Serve conn],
                   Returns (Inr (r\<lparr>OscServerConn := Some conn\<rparr>)))))"

text \<open>The ticker task of a subscription: what it does when it starts, and one tick.\<close>

definition subscriptionStart :: "'a Relay \<Rightarrow> 'a RelayOscSubscription \<Rightarrow> 'a effect list" where
  "subscriptionStart r subcription =
     Log r DebugLog ''Started subscription: %s''
       [FString (RelayOscSubscription.Command subcription)]"

definition subscriptionTick ::
  "'a Env \<Rightarrow> 'a Relay \<Rightarrow> 'a RelayOscSubscription \<Rightarrow> 'a effect list \<times> flow"
where
  "subscriptionTick env r subcription =
     (let l0 = Log r DebugLog ''Running subscription: %s''
                 [FString (RelayOscSubscription.Command subcription)];
          oscMessage = (NewMessage (RelayOscSubscription.Command subcription) :: 'a osc_Message);
          oscMessage = osc_Message (osc_Address oscMessage)
                         (RelayOscSubscription.Payload subcription)
      in case sendAndLog env r (PMessage oscMessage) of (es, f) \<Rightarrow> (l0 @ es, f))"

section \<open>Configuration validation\<close>

text \<open>The \<^verbatim>\<open>log.Fatal\<close> exits of the validation, with the relay index they print.\<close>

datatype fatal =
    NoRelays
  | MqttRequired nat
  | TopicRequired nat
  | EndpointRequired nat
  | TopicShared nat
  | BindPortShared nat

text \<open>The first loop of the validation: the bind port defaults to the OSC port.\<close>

definition deriveBindPort :: "'a Relay \<Rightarrow> 'a Relay" where
  "deriveBindPort relay =
     (if OscBindAddr relay \<noteq> [] \<and> OscBindPort relay = 0
      then relay\<lparr>OscBindPort := OscPort relay\<rparr> else relay)"

text \<open>
  The inner loop \<^verbatim>\<open>for b, relay2 := range app.config.Relays\<close> for the relay at index
  \<open>i\<close>; \<open>b\<close> is the index of the head of the remaining list.
\<close>

fun checkAgainst :: "nat \<Rightarrow> 'a Relay \<Rightarrow> nat \<Rightarrow> 'a Relay list \<Rightarrow> fatal option" where
  "checkAgainst i relay b [] = None"
| "checkAgainst i relay b (relay2 # rest) =
     (if b \<noteq> i then
        (if Relay.MqttTopic relay = Relay.MqttTopic relay2 then Some (TopicShared i)
         else if OscBindPort relay = OscBindPort relay2 then Some (BindPortShared i)
         else checkAgainst i relay (Suc b) rest)
      else checkAgainst i relay (Suc b) rest)"

text \<open>
  The outer loop \<^verbatim>\<open>for i, relay := range app.config.Relays\<close>; \<open>all\<close> is the whole
  list, \<open>i\<close> the index of the head of the remaining list.
\<close>

fun checkRelays :: "'a Relay list \<Rightarrow> nat \<Rightarrow> 'a Relay list \<Rightarrow> fatal option" where
  "checkRelays all i [] = None"
| "checkRelays all i (relay # rest) =
     (if MqttHost relay = [] \<or> MqttPort relay = 0 then Some (MqttRequired i)
      else if Relay.MqttTopic relay = [] then Some (TopicRequired i)
      else if OscBindAddr relay = [] \<and> OscHost relay = [] then Some (EndpointRequired i)
      else (case checkAgainst i relay 0 all of
              Some e \<Rightarrow> Some e
            | None \<Rightarrow> checkRelays all (Suc i) rest))"

text \<open>
  \<^verbatim>\<open>App.ReadConfig\<close> from the check of the relay list on: the argument is the list
  \<^verbatim>\<open>yaml.Unmarshal\<close> produced (a list of relays: every entry is taken to be a relay,
  not a nil pointer), the result the fatal exit or the relays as they are handed to
  \<^verbatim>\<open>Start\<close>.
\<close>

definition ReadConfig :: "'a Relay list \<Rightarrow> fatal + 'a Relay list" where
  "ReadConfig relays =
     (if length relays = 0 then Inl NoRelays
      else (let relays = map deriveBindPort relays
            in case checkRelays relays 0 relays of
                 Some e \<Rightarrow> Inl e
               | None \<Rightarrow> Inr relays))"

section \<open>The specification's wording of a valid configuration\<close>

text \<open>
  The spec's bind port of a relay is optional. In the configuration an omitted port is 0.
  A relay has the bind port it gives; a relay that gives a bind address and omits the
  bind port has its peer port, when it gives one; any other relay has no bind port.
\<close>

definition spec_bind_port :: "'a Relay \<Rightarrow> int option" where
  "spec_bind_port r =
     (if OscBindPort r \<noteq> 0 then Some (OscBindPort r)
      else if OscBindAddr r \<noteq> [] \<and> OscPort r \<noteq> 0 then Some (OscPort r)
      else None)"

text \<open>
  The spec's checks of one relay: broker host and port non-empty and non-zero, topic
  namespace root non-empty, a bind address or a control peer host.
\<close>

definition spec_relay_ok :: "'a Relay \<Rightarrow> bool" where
  "spec_relay_ok r =
     (MqttHost r \<noteq> [] \<and> MqttPort r \<noteq> 0 \<and> Relay.MqttTopic r \<noteq> [] \<and>
      (OscBindAddr r \<noteq> [] \<or> OscHost r \<noteq> []))"

text \<open>
  The spec's valid configuration: a non-empty list of relays that each pass, no two of
  them with the same topic namespace root, and no two of those that have a bind port with
  the same one.
\<close>

definition spec_valid :: "'a Relay list \<Rightarrow> bool" where
  "spec_valid rs =
     (rs \<noteq> [] \<and> list_all spec_relay_ok rs \<and> distinct (map Relay.MqttTopic rs) \<and>
      distinct (List.map_filter spec_bind_port rs))"

text \<open>Client-only mode: neither a bind address nor a bind port.\<close>

definition client_only :: "'a Relay \<Rightarrow> bool" where
  "client_only r = (OscBindAddr r = [] \<and> OscBindPort r = 0)"

section \<open>The lists the validation accepts\<close>

text \<open>
  The field \<^verbatim>\<open>OscBindPort\<close> of a relay after the first loop of the validation, which
  is the integer the nested loop compares: 0 for a relay that gives neither a bind port
  nor a bind address.
\<close>

definition derived_bind_port :: "'a Relay \<Rightarrow> int" where
  "derived_bind_port r =
     (if OscBindAddr r \<noteq> [] \<and> OscBindPort r = 0 then OscPort r else OscBindPort r)"

text \<open>
  The lists on which the validation returns, as the properties below show: non-empty,
  every relay passing the checks of one relay, the topics pairwise different, and the
  integers the nested loop compares pairwise different.
\<close>

definition accepted :: "'a Relay list \<Rightarrow> bool" where
  "accepted rs =
     (rs \<noteq> [] \<and> list_all spec_relay_ok rs \<and> distinct (map Relay.MqttTopic rs) \<and>
      distinct (map derived_bind_port rs))"

text \<open>What a fatal exit reports of the list: the relay at its index has the defect, the
  bind ports compared as the nested loop compares them.\<close>

fun reported :: "'a Relay list \<Rightarrow> fatal \<Rightarrow> bool" where
  "reported rs NoRelays = (rs = [])"
| "reported rs (MqttRequired i) =
     (i < length rs \<and> (MqttHost (rs ! i) = [] \<or> MqttPort (rs ! i) = 0))"
| "reported rs (TopicRequired i) = (i < length rs \<and> Relay.MqttTopic (rs ! i) = [])"
| "reported rs (EndpointRequired i) =
     (i < length rs \<and> OscBindAddr (rs ! i) = [] \<and> OscHost (rs ! i) = [])"
| "reported rs (TopicShared i) =
     (i < length rs \<and>
      (\<exists>j \<in> set [0..<length rs]. j \<noteq> i \<and> Relay.MqttTopic (rs ! j) = Relay.MqttTopic (rs ! i)))"
| "reported rs (BindPortShared i) =
     (i < length rs \<and>
      (\<exists>j \<in> set [0..<length rs]. j \<noteq> i \<and>
         derived_bind_port (rs ! j) = derived_bind_port (rs ! i)))"

section \<open>Sample values\<close>

text \<open>
  An environment for the examples, with string arguments. Its decoder accepts the two
  payloads \<open>[]\<close> and \<open>[1]\<close> and rejects every other payload, as a JSON decoder rejects
  text that is no JSON; every address resolves, the binary form of a message is its
  address, a space and its arguments, and no socket or broker operation fails: a dialled
  socket is socket 7, a bound one socket 3.
\<close>

definition sample_env :: "string Env" where
  "sample_env =
     \<lparr>Unmarshal_arguments =
        (\<lambda>p. if p = ''[]'' then Inr [] else if p = ''[1]'' then Inr [''1'']
              else Inl ''invalid character''),
      Unmarshal_bundle = (\<lambda>p. Inl ''unexpected end of JSON input''),
      Marshal_arguments = (\<lambda>xs. Inr (''['' @ concat xs @ '']'')),
      Marshal_bundle = (\<lambda>b. Inr ''{}''),
      Marshal_relay = (\<lambda>r. Inr ''{}''),
      ResolveUDPAddr = (\<lambda>host port. Inr (host, port)),
      MarshalBinary =
        (\<lambda>p. case p of
                PMessage m \<Rightarrow> Inr (osc_Address m @ '' '' @ concat (osc_Arguments m))
              | PBundle b \<Rightarrow> Inr ''#bundle''
              | POther \<Rightarrow> Inl ''unsupported''),
      WriteTo_error = (\<lambda>c d a. None),
      DialUDP = (\<lambda>a. Inr 7),
      Connect_error = (\<lambda>host port client user password. None),
      Subscribe_error = (\<lambda>topic. None),
      ListenPacket = (\<lambda>a. Inr 3)\<rparr>"

text \<open>A client-only relay on the namespace \<open>osc/test\<close>, as in the spec's scenario.\<close>

definition sample_relay :: "string Relay" where
  "sample_relay =
     \<lparr>MqttHost = ''10.0.0.2'', MqttPort = 1883, MqttClientId = ''osc_mqtt_bridge'',
      MqttUser = ''mqtt'', MqttPassword = ''PASSWORD'', MqttTopic = ''osc/test'',
      MqttDisableConfigSend = False, OscHost = ''10.0.0.3'', OscPort = 2223,
      OscBindAddr = [], OscBindPort = 0, OscDisallowArbritaryCommand = False,
      Commands = [], OscSubscriptions = [], LogLevel = ErrorLog,
      OscServer = None, OscServerConn = None\<rparr>"

text \<open>The same relay configured for bidirectional mode.\<close>

definition bind_relay :: "string Relay" where
  "bind_relay = sample_relay\<lparr>OscBindAddr := ''10.0.0.1'', OscBindPort := 2223\<rparr>"

text \<open>A mapping for \<open>/ch/1/mute\<close> on the sub-topic \<open>send/x\<close>, with default arguments.\<close>

definition mute_on_send :: "string RelayCommand" where
  "mute_on_send =
     \<lparr>RelayCommand.Command = ''/ch/1/mute'', RelayCommand.MqttTopic = [],
      MqttSubTopic = ''send/x'', DisallowPayload = True, DefaultPayload = [''0'']\<rparr>"

text \<open>Two mappings on the sub-topic \<open>x\<close>: the first forwards the payload, the second
  sends its default arguments only.\<close>

definition forward_a :: "string RelayCommand" where
  "forward_a =
     \<lparr>RelayCommand.Command = ''/a'', RelayCommand.MqttTopic = [],
      MqttSubTopic = ''x'', DisallowPayload = False, DefaultPayload = []\<rparr>"

definition fixed_b :: "string RelayCommand" where
  "fixed_b =
     \<lparr>RelayCommand.Command = ''/b'', RelayCommand.MqttTopic = [],
      MqttSubTopic = ''x'', DisallowPayload = True, DefaultPayload = [''1'']\<rparr>"

text \<open>The relay of the examples with one mapping on \<open>osc/test/send/x\<close>; the same relay
  with arbitrary commands disallowed; a relay with arbitrary commands disallowed, no
  mapping and the log level \<open>-1\<close>; a message on that topic.\<close>

definition overlap_relay :: "string Relay" where
  "overlap_relay = sample_relay\<lparr>Commands := [mute_on_send]\<rparr>"

definition gated_relay :: "string Relay" where
  "gated_relay = sample_relay\<lparr>OscDisallowArbritaryCommand := True, Commands := [mute_on_send]\<rparr>"

definition silent_relay :: "string Relay" where
  "silent_relay = sample_relay\<lparr>OscDisallowArbritaryCommand := True, LogLevel := - 1\<rparr>"

definition send_x :: mqtt_Message where
  "send_x = \<lparr>Topic = ''osc/test/send/x'', Payload = []\<rparr>"

text \<open>The relay with the two mappings on \<open>osc/test/x\<close>, and a message there whose
  payload is no JSON.\<close>

definition two_mappings_relay :: "string Relay" where
  "two_mappings_relay = sample_relay\<lparr>Commands := [forward_a, fixed_b]\<rparr>"

definition bad_payload :: mqtt_Message where
  "bad_payload = \<lparr>Topic = ''osc/test/x'', Payload = ''not json''\<rparr>"

text \<open>Configurations: a bidirectional relay without a bind port beside a client-only
  one; two client-only relays; two client-only relays, the first without a broker host.\<close>

definition derived_port_config :: "string Relay list" where
  "derived_port_config =
     [sample_relay\<lparr>OscBindAddr := ''10.0.0.1''\<rparr>, sample_relay\<lparr>MqttTopic := ''osc/two''\<rparr>]"

definition two_clients_config :: "string Relay list" where
  "two_clients_config = [sample_relay, sample_relay\<lparr>MqttTopic := ''osc/two''\<rparr>]"

definition no_host_config :: "string Relay list" where
  "no_host_config =
     [sample_relay\<lparr>MqttHost := []\<rparr>, sample_relay\<lparr>MqttTopic := ''osc/two''\<rparr>]"

text \<open>A portable bundle with a message and a nested bundle, the wire bundle of the same
  shape, and a heap holding each at pointer 2.\<close>

definition sample_bundle :: "string OscBundle" where
  "sample_bundle = OscBundle 3 [OscMessage ''/a'' [''1'']] [OscBundle 4 [] []]"

definition sample_wire_bundle :: "string osc_Bundle" where
  "sample_wire_bundle = osc_Bundle 3 [osc_Message ''/a'' [''1'']] [osc_Bundle 4 [] []]"

definition sample_heap :: "string heap" where
  "sample_heap = [Obj_OscMessage ''/a'' [''1''], Obj_OscBundle 4 [] [], Obj_OscBundle 3 [0] [1]]"

definition sample_wire_heap :: "string heap" where
  "sample_wire_heap =
     [Obj_osc_Message ''/a'' [''1''], Obj_osc_Bundle 4 [] [], Obj_osc_Bundle 3 [0] [1]]"

section \<open>Properties of the bundle codec\<close>

lemma foldl_snoc_messages:
  "foldl (\<lambda>b x. OscBundle (Timetag b) (Messages b @ [f x]) (Bundles b)) (OscBundle t ms bs) xs
     = OscBundle t (ms @ map f xs) bs"
  by (induction xs arbitrary: ms) simp_all

lemma foldl_snoc_bundles:
  "foldl (\<lambda>b x. OscBundle (Timetag b) (Messages b) (Bundles b @ [f x])) (OscBundle t ms bs) xs
     = OscBundle t ms (bs @ map f xs)"
  by (induction xs arbitrary: bs) simp_all

lemma foldl_Append_messages:
  "foldl (\<lambda>b x. Append b (PMessage (f x))) (osc_Bundle t ms bs) xs
     = osc_Bundle t (ms @ map f xs) bs"
  by (induction xs arbitrary: ms) simp_all

lemma foldl_Append_bundles:
  "foldl (\<lambda>b x. Append b (PBundle (f x))) (osc_Bundle t ms bs) xs
     = osc_Bundle t ms (bs @ map f xs)"
  by (induction xs arbitrary: bs) simp_all

lemma makeBundle_map:
  "makeBundle (osc_Bundle tt msgs subs) =
     OscBundle tt (map (\<lambda>m. OscMessage (osc_Address m) (osc_Arguments m)) msgs)
       (map makeBundle subs)"
  by (simp add: Let_def foldl_snoc_messages foldl_snoc_bundles)

lemma MakeOSCBundle_map:
  "MakeOSCBundle (OscBundle tt msgs subs) =
     osc_Bundle tt (map (\<lambda>m. osc_Message (Address m) (Arguments m)) msgs)
       (map MakeOSCBundle subs)"
  by (simp add: Let_def NewBundle_def NewMessage_def foldl_Append_messages
      foldl_Append_bundles)

lemma makeBundle_MakeOSCBundle: "makeBundle (MakeOSCBundle x) = x"
proof (induction x)
  case (OscBundle tt msgs subs)
  have "map (makeBundle \<circ> MakeOSCBundle) subs = subs"
    using OscBundle.IH by (simp add: map_idI)
  then show ?case
    by (simp only: MakeOSCBundle_map makeBundle_map map_map)
      (simp add: comp_def map_idI)
qed

lemma MakeOSCBundle_makeBundle: "MakeOSCBundle (makeBundle w) = w"
proof (induction w)
  case (osc_Bundle tt msgs subs)
  have "map (MakeOSCBundle \<circ> makeBundle) subs = subs"
    using osc_Bundle.IH by (simp add: map_idI)
  then show ?case
    by (simp only: MakeOSCBundle_map makeBundle_map map_map)
      (simp add: comp_def map_idI)
qed

section \<open>Properties of the codec on the heap\<close>

lemma agree_refl [simp]: "agree lo h h"
  by (simp add: agree_def)

lemma agree_trans: "agree lo h h' \<Longrightarrow> agree lo h' h'' \<Longrightarrow> agree lo h h''"
  by (auto simp: agree_def)

lemma agree_mono: "agree lo h h' \<Longrightarrow> lo \<le> lo' \<Longrightarrow> agree lo' h h'"
  by (auto simp: agree_def)

lemma agree_append [simp]: "agree lo h (h @ xs)"
  by (simp add: agree_def nth_append)

lemma agree_update_below: "b < lo \<Longrightarrow> agree lo h (h[b := obj])"
  by (simp add: agree_def)

lemma agree_update_above: "agree lo h0 h \<Longrightarrow> length h0 \<le> b \<Longrightarrow> agree lo h0 (h[b := obj])"
  by (auto simp: agree_def)

lemma agree_0_prefix: "agree 0 h h' \<Longrightarrow> prefix h h'"
proof -
  assume a: "agree 0 h h'"
  then have "take (length h) h' = h"
    by (intro nth_equalityI) (auto simp: agree_def)
  then show ?thesis by (metis take_is_prefix)
qed

lemma load_agree: "agree lo h h' \<Longrightarrow> lo \<le> q \<Longrightarrow> load h q = Some obj \<Longrightarrow> load h' q = Some obj"
  by (auto simp: agree_def load_def split: if_splits)

lemma load_Some_less: "load h q = Some obj \<Longrightarrow> q < length h"
  by (auto simp: load_def split: if_splits)

lemma load_new [simp]: "load (h @ [obj]) (length h) = Some obj"
  by (simp add: load_def)

lemma load_update_same: "b < length h \<Longrightarrow> load (h[b := obj]) b = Some obj"
  by (simp add: load_def)

lemma load_update_other: "q \<noteq> b \<Longrightarrow> load (h[b := obj]) q = load h q"
  by (simp add: load_def)

lemma load_append_old: "q < length h \<Longrightarrow> load (h @ xs) q = load h q"
  by (simp add: load_def nth_append)

lemma update_new: "f obj = Some obj' \<Longrightarrow> update (h @ [obj]) (length h) f = Some (h @ [obj'])"
  by (simp add: update_def)

lemma update_Some:
  "load h b = Some obj \<Longrightarrow> f obj = Some obj' \<Longrightarrow> update h b f = Some (h[b := obj'])"
  by (simp add: update_def)

lemma port_msg_at_agree: "agree lo h h' \<Longrightarrow> port_msg_at lo h q m \<Longrightarrow> port_msg_at lo h' q m"
  by (auto simp: port_msg_at_def dest: load_agree)

lemma wire_msg_at_agree: "agree lo h h' \<Longrightarrow> wire_msg_at lo h q m \<Longrightarrow> wire_msg_at lo h' q m"
  by (auto simp: wire_msg_at_def dest: load_agree)

lemma port_msg_at_mono: "lo' \<le> lo \<Longrightarrow> port_msg_at lo h q m \<Longrightarrow> port_msg_at lo' h q m"
  by (auto simp: port_msg_at_def)

lemma wire_msg_at_mono: "lo' \<le> lo \<Longrightarrow> wire_msg_at lo h q m \<Longrightarrow> wire_msg_at lo' h q m"
  by (auto simp: wire_msg_at_def)

lemma port_all_at_list_all2: "port_all_at lo h qs xs = list_all2 (port_at lo h) qs xs"
proof (induction qs arbitrary: xs)
  case Nil
  then show ?case by (cases xs) simp_all
next
  case (Cons q qs)
  then show ?case by (cases xs) simp_all
qed

lemma wire_all_at_list_all2: "wire_all_at lo h qs xs = list_all2 (wire_at lo h) qs xs"
proof (induction qs arbitrary: xs)
  case Nil
  then show ?case by (cases xs) simp_all
next
  case (Cons q qs)
  then show ?case by (cases xs) simp_all
qed

lemma port_at_agree:
  "agree lo h h' \<Longrightarrow> port_at lo h p x \<Longrightarrow> port_at lo h' p x"
proof (induction x arbitrary: p)
  case (OscBundle tt ms bs)
  from OscBundle.prems(2) obtain mrefs brefs where
    lo: "lo \<le> p" and ld: "load h p = Some (Obj_OscBundle tt mrefs brefs)"
    and m: "list_all2 (port_msg_at lo h) mrefs ms"
    and b: "list_all2 (port_at lo h) brefs bs"
    by (auto simp: port_all_at_list_all2 split: option.splits object.splits)
  have ld': "load h' p = Some (Obj_OscBundle tt mrefs brefs)"
    using load_agree[OF OscBundle.prems(1) lo ld] .
  have m': "list_all2 (port_msg_at lo h') mrefs ms"
    using m port_msg_at_agree[OF OscBundle.prems(1)] by (rule list_all2_mono)
  have b': "list_all2 (port_at lo h') brefs bs"
    using b OscBundle.IH OscBundle.prems(1)
    by (auto simp: list_all2_conv_all_nth)
  show ?case using lo ld' m' b' by (simp add: port_all_at_list_all2)
qed

lemma wire_at_agree:
  "agree lo h h' \<Longrightarrow> wire_at lo h p x \<Longrightarrow> wire_at lo h' p x"
proof (induction x arbitrary: p)
  case (osc_Bundle tt ms bs)
  from osc_Bundle.prems(2) obtain mrefs brefs where
    lo: "lo \<le> p" and ld: "load h p = Some (Obj_osc_Bundle tt mrefs brefs)"
    and m: "list_all2 (wire_msg_at lo h) mrefs ms"
    and b: "list_all2 (wire_at lo h) brefs bs"
    by (auto simp: wire_all_at_list_all2 split: option.splits object.splits)
  have ld': "load h' p = Some (Obj_osc_Bundle tt mrefs brefs)"
    using load_agree[OF osc_Bundle.prems(1) lo ld] .
  have m': "list_all2 (wire_msg_at lo h') mrefs ms"
    using m wire_msg_at_agree[OF osc_Bundle.prems(1)] by (rule list_all2_mono)
  have b': "list_all2 (wire_at lo h') brefs bs"
    using b osc_Bundle.IH osc_Bundle.prems(1)
    by (auto simp: list_all2_conv_all_nth)
  show ?case using lo ld' m' b' by (simp add: wire_all_at_list_all2)
qed

lemma port_at_mono:
  "lo' \<le> lo \<Longrightarrow> port_at lo h p x \<Longrightarrow> port_at lo' h p x"
proof (induction x arbitrary: p)
  case (OscBundle tt ms bs)
  from OscBundle.prems(2) obtain mrefs brefs where
    lo: "lo \<le> p" and ld: "load h p = Some (Obj_OscBundle tt mrefs brefs)"
    and m: "list_all2 (port_msg_at lo h) mrefs ms"
    and b: "list_all2 (port_at lo h) brefs bs"
    by (auto simp: port_all_at_list_all2 split: option.splits object.splits)
  have m': "list_all2 (port_msg_at lo' h) mrefs ms"
    using m port_msg_at_mono[OF OscBundle.prems(1)] by (rule list_all2_mono)
  have b': "list_all2 (port_at lo' h) brefs bs"
    using b OscBundle.IH OscBundle.prems(1)
    by (auto simp: list_all2_conv_all_nth)
  show ?case using lo ld m' b' OscBundle.prems(1) by (simp add: port_all_at_list_all2)
qed

lemma wire_at_mono:
  "lo' \<le> lo \<Longrightarrow> wire_at lo h p x \<Longrightarrow> wire_at lo' h p x"
proof (induction x arbitrary: p)
  case (osc_Bundle tt ms bs)
  from osc_Bundle.prems(2) obtain mrefs brefs where
    lo: "lo \<le> p" and ld: "load h p = Some (Obj_osc_Bundle tt mrefs brefs)"
    and m: "list_all2 (wire_msg_at lo h) mrefs ms"
    and b: "list_all2 (wire_at lo h) brefs bs"
    by (auto simp: wire_all_at_list_all2 split: option.splits object.splits)
  have m': "list_all2 (wire_msg_at lo' h) mrefs ms"
    using m wire_msg_at_mono[OF osc_Bundle.prems(1)] by (rule list_all2_mono)
  have b': "list_all2 (wire_at lo' h) brefs bs"
    using b osc_Bundle.IH osc_Bundle.prems(1)
    by (auto simp: list_all2_conv_all_nth)
  show ?case using lo ld m' b' osc_Bundle.prems(1) by (simp add: wire_all_at_list_all2)
qed

lemma makeBundle_message_step:
  assumes msg: "load h0 q = Some (Obj_osc_Message a args)"
    and pre: "agree 0 h0 H"
    and b: "load H b = Some (Obj_OscBundle tt dn subs)"
  shows "makeBundle_message b q H =
           Some ((H @ [Obj_OscMessage a args])[b := Obj_OscBundle tt (dn @ [length H]) subs])"
proof -
  have q: "q < length H" using load_agree[OF pre _ msg] load_Some_less by fastforce
  have "load H q = Some (Obj_osc_Message a args)" using load_agree[OF pre _ msg] by simp
  then have lq: "load (H @ [Obj_OscMessage [] []]) q = Some (Obj_osc_Message a args)"
    using q by (simp add: load_append_old)
  have bl: "b < length H" using b by (rule load_Some_less)
  have lb: "load (H @ [Obj_OscMessage a args]) b = Some (Obj_OscBundle tt dn subs)"
    using b bl by (simp add: load_append_old)
  show ?thesis
    by (simp add: makeBundle_message_def new_def lq update_new update_Some[OF lb])
qed

lemma makeBundle_messages_loop:
  assumes "list_all2 (wire_msg_at 0 h0) mrefs ms"
    and "agree 0 h0 H" and "length h0 \<le> b"
    and "load H b = Some (Obj_OscBundle tt dn subs)"
    and "list_all2 (port_msg_at (Suc b) H) dn dms"
    and "list_all2 (port_at (Suc b) H) subs dws"
  shows "\<exists>H' refs. range_loop (makeBundle_message b) mrefs H = Some H' \<and>
           agree 0 h0 H' \<and>
           load H' b = Some (Obj_OscBundle tt (dn @ refs) subs) \<and>
           list_all2 (port_msg_at (Suc b) H') (dn @ refs)
             (dms @ map (\<lambda>m. OscMessage (osc_Address m) (osc_Arguments m)) ms) \<and>
           list_all2 (port_at (Suc b) H') subs dws"
  using assms
proof (induction mrefs ms arbitrary: H dn dms rule: list_all2_induct)
  case Nil
  then show ?case by (intro exI[of _ H] exI[of _ "[]"]) simp
next
  case (Cons q mrefs m ms)
  let ?H1 = "(H @ [Obj_OscMessage (osc_Address m) (osc_Arguments m)])
               [b := Obj_OscBundle tt (dn @ [length H]) subs]"
  have msg: "load h0 q = Some (Obj_osc_Message (osc_Address m) (osc_Arguments m))"
    using Cons.hyps(1) by (simp add: wire_msg_at_def)
  have bl: "b < length H" using Cons.prems(3) by (rule load_Some_less)
  have step: "makeBundle_message b q H = Some ?H1"
    using makeBundle_message_step[OF msg Cons.prems(1) Cons.prems(3)] .
  have ag0: "agree 0 h0 ?H1"
    using Cons.prems(1,2) by (intro agree_update_above agree_trans[OF _ agree_append]) 
  have agb: "agree (Suc b) H ?H1"
    by (intro agree_trans[OF agree_append agree_update_below]) simp
  have lb: "load ?H1 b = Some (Obj_OscBundle tt (dn @ [length H]) subs)"
    using bl by (simp add: load_update_same)
  have new_msg: "port_msg_at (Suc b) ?H1 (length H)
      (OscMessage (osc_Address m) (osc_Arguments m))"
    using bl by (simp add: port_msg_at_def load_update_other)
  have old: "list_all2 (port_msg_at (Suc b) ?H1) dn dms"
    using Cons.prems(4) port_msg_at_agree[OF agb] by (rule list_all2_mono)
  have msgs: "list_all2 (port_msg_at (Suc b) ?H1) (dn @ [length H])
      (dms @ [OscMessage (osc_Address m) (osc_Arguments m)])"
    using old new_msg by (simp add: list_all2_appendI)
  have subs: "list_all2 (port_at (Suc b) ?H1) subs dws"
    using Cons.prems(5) port_at_agree[OF agb] by (rule list_all2_mono)
  from Cons.IH[OF ag0 Cons.prems(2) lb msgs subs] obtain H' refs where
    "range_loop (makeBundle_message b) mrefs ?H1 = Some H'" "agree 0 h0 H'"
    "load H' b = Some (Obj_OscBundle tt ((dn @ [length H]) @ refs) subs)"
    "list_all2 (port_msg_at (Suc b) H') ((dn @ [length H]) @ refs)
       ((dms @ [OscMessage (osc_Address m) (osc_Arguments m)])
        @ map (\<lambda>m. OscMessage (osc_Address m) (osc_Arguments m)) ms)"
    "list_all2 (port_at (Suc b) H') subs dws"
    by blast
  then show ?case
    using step by (intro exI[of _ H'] exI[of _ "length H # refs"]) simp
qed

lemma append_sub_step:
  assumes tr: "translate H q = Some (H1, s)" and pre: "agree 0 H H1"
    and b: "load H b = Some (Obj_OscBundle tt msgs dn)"
  shows "append_sub translate b q H = Some (H1[b := Obj_OscBundle tt msgs (dn @ [s])])"
proof -
  have "load H1 b = Some (Obj_OscBundle tt msgs dn)"
    using load_agree[OF pre _ b] by simp
  then show ?thesis
    by (simp add: append_sub_def tr update_Some)
qed

lemma makeBundle_subs_loop:
  assumes tr: "\<And>H p w. wire_at 0 H p w \<Longrightarrow> wire_depth w \<le> fuel \<Longrightarrow>
            \<exists>H' q. translate H p = Some (H', q) \<and> agree 0 H H' \<and>
              port_at (length H) H' q (makeBundle w)"
    and "list_all2 (wire_at 0 h0) brefs ws"
    and "\<forall>w \<in> set ws. wire_depth w \<le> fuel"
    and "agree 0 h0 H" and "length h0 \<le> b"
    and "load H b = Some (Obj_OscBundle tt msgs dn)"
    and "list_all2 (port_msg_at (Suc b) H) msgs dms"
    and "list_all2 (port_at (Suc b) H) dn dws"
  shows "\<exists>H' refs. range_loop (append_sub translate b) brefs H = Some H' \<and>
           agree 0 h0 H' \<and>
           load H' b = Some (Obj_OscBundle tt msgs (dn @ refs)) \<and>
           list_all2 (port_msg_at (Suc b) H') msgs dms \<and>
           list_all2 (port_at (Suc b) H') (dn @ refs) (dws @ map makeBundle ws)"
  using assms(2-)
proof (induction brefs ws arbitrary: H dn dws rule: list_all2_induct)
  case Nil
  then show ?case by (intro exI[of _ H] exI[of _ "[]"]) simp
next
  case (Cons q brefs w ws)
  have bl: "b < length H" using Cons.prems(4) by (rule load_Some_less)
  have "wire_at 0 H q w" using wire_at_agree[OF Cons.prems(2) Cons.hyps(1)] .
  moreover have "wire_depth w \<le> fuel" using Cons.prems(1) by simp
  ultimately obtain H1 s where t: "translate H q = Some (H1, s)" and a1: "agree 0 H H1"
    and p1: "port_at (length H) H1 s (makeBundle w)"
    using tr by blast
  let ?H2 = "H1[b := Obj_OscBundle tt msgs (dn @ [s])]"
  have step: "append_sub translate b q H = Some ?H2"
    using append_sub_step[of translate H q H1 s b tt msgs dn] t a1 Cons.prems(4) by simp
  have bl1: "b < length H1" using bl a1 by (simp add: agree_def)
  have ag0: "agree 0 h0 ?H2"
    using agree_update_above[OF agree_trans[OF Cons.prems(2) a1] Cons.prems(3)] .
  have agb: "agree (Suc b) H ?H2"
    using agree_trans[OF agree_mono[OF a1] agree_update_below] by simp
  have agb1: "agree (Suc b) H1 ?H2"
    by (rule agree_update_below) simp
  have lb: "load ?H2 b = Some (Obj_OscBundle tt msgs (dn @ [s]))"
    using bl1 by (simp add: load_update_same)
  have msgs: "list_all2 (port_msg_at (Suc b) ?H2) msgs dms"
    using Cons.prems(5) port_msg_at_agree[OF agb] by (rule list_all2_mono)
  have old: "list_all2 (port_at (Suc b) ?H2) dn dws"
    using Cons.prems(6) port_at_agree[OF agb] by (rule list_all2_mono)
  have "port_at (Suc b) H1 s (makeBundle w)"
    using port_at_mono[OF _ p1] bl by simp
  then have "port_at (Suc b) ?H2 s (makeBundle w)"
    using port_at_agree[OF agb1] by simp
  then have subs: "list_all2 (port_at (Suc b) ?H2) (dn @ [s]) (dws @ [makeBundle w])"
    using old by (simp add: list_all2_appendI)
  have d: "\<forall>w \<in> set ws. wire_depth w \<le> fuel" using Cons.prems(1) by simp
  from Cons.IH[OF d ag0 Cons.prems(3) lb msgs subs] obtain H' refs where
    "range_loop (append_sub translate b) brefs ?H2 = Some H'" "agree 0 h0 H'"
    "load H' b = Some (Obj_OscBundle tt msgs ((dn @ [s]) @ refs))"
    "list_all2 (port_msg_at (Suc b) H') msgs dms"
    "list_all2 (port_at (Suc b) H') ((dn @ [s]) @ refs)
       ((dws @ [makeBundle w]) @ map makeBundle ws)"
    by blast
  then show ?case
    using step by (intro exI[of _ H'] exI[of _ "s # refs"]) simp
qed

lemma wire_depth_sub: "w \<in> set bs \<Longrightarrow> wire_depth w \<le> foldr max (map wire_depth bs) 0"
  by (induction bs) auto

lemma makeBundle_h_correct:
  "wire_at 0 h p w \<Longrightarrow> wire_depth w \<le> fuel \<Longrightarrow>
     \<exists>h' q. makeBundle_h fuel h p = Some (h', q) \<and> agree 0 h h' \<and>
       port_at (length h) h' q (makeBundle w)"
proof (induction fuel arbitrary: h p w)
  case 0
  then show ?case by (cases w) simp
next
  case (Suc fuel)
  obtain tt ms bs where w: "w = osc_Bundle tt ms bs" by (cases w)
  from Suc.prems(1) w obtain mrefs brefs where
    ld: "load h p = Some (Obj_osc_Bundle tt mrefs brefs)"
    and m: "list_all2 (wire_msg_at 0 h) mrefs ms"
    and b: "list_all2 (wire_at 0 h) brefs bs"
    by (auto simp: wire_all_at_list_all2 split: option.splits object.splits)
  let ?b = "length h"
  let ?H0 = "h @ [Obj_OscBundle tt [] []]"
  have up: "update (h @ [Obj_OscBundle zero_Time [] []]) ?b (set_Timetag tt) = Some ?H0"
    by (simp add: update_new)
  have lb0: "load ?H0 ?b = Some (Obj_OscBundle tt [] [])" by simp
  have e1: "list_all2 (port_msg_at (Suc ?b) ?H0) [] []"
    and e2: "list_all2 (port_at (Suc ?b) ?H0) [] []"
    by simp_all
  from makeBundle_messages_loop[OF m agree_append order_refl lb0 e1 e2]
  obtain H1 refs where l1: "range_loop (makeBundle_message ?b) mrefs ?H0 = Some H1"
    and a1: "agree 0 h H1"
    and lb1: "load H1 ?b = Some (Obj_OscBundle tt refs [])"
    and m1: "list_all2 (port_msg_at (Suc ?b) H1) refs
               (map (\<lambda>m. OscMessage (osc_Address m) (osc_Arguments m)) ms)"
    and s1: "list_all2 (port_at (Suc ?b) H1) [] []"
    by auto
  have d: "\<forall>w \<in> set bs. wire_depth w \<le> fuel"
    using Suc.prems(2) w wire_depth_sub[of _ bs] by fastforce
  from makeBundle_subs_loop[of fuel "makeBundle_h fuel", OF Suc.IH b d a1 order_refl lb1 m1 s1]
  obtain H2 srefs where l2: "range_loop (append_sub (makeBundle_h fuel) ?b) brefs H1 = Some H2"
    and a2: "agree 0 h H2"
    and lb2: "load H2 ?b = Some (Obj_OscBundle tt refs srefs)"
    and m2: "list_all2 (port_msg_at (Suc ?b) H2) refs
               (map (\<lambda>m. OscMessage (osc_Address m) (osc_Arguments m)) ms)"
    and s2: "list_all2 (port_at (Suc ?b) H2) srefs (map makeBundle bs)"
    by auto
  have "load (h @ [Obj_OscBundle zero_Time [] []]) p = Some (Obj_osc_Bundle tt mrefs brefs)"
    using ld load_Some_less[OF ld] by (simp add: load_append_old)
  then have res: "makeBundle_h (Suc fuel) h p = Some (H2, ?b)"
    by (simp add: new_def up l1 l2)
  have m3: "list_all2 (port_msg_at ?b H2) refs
               (map (\<lambda>m. OscMessage (osc_Address m) (osc_Arguments m)) ms)"
    using m2 port_msg_at_mono[of ?b "Suc ?b"] by (rule list_all2_mono) simp
  have s3: "list_all2 (port_at ?b H2) srefs (map makeBundle bs)"
    using s2 port_at_mono[of ?b "Suc ?b"] by (rule list_all2_mono) simp
  have "port_at ?b H2 ?b (makeBundle w)"
    unfolding w makeBundle_map using lb2 m3 s3 by (simp add: port_all_at_list_all2)
  then show ?case using res a2 by blast
qed

lemma MakeOSCBundle_message_step:
  assumes msg: "load h0 q = Some (Obj_OscMessage a args)"
    and pre: "agree 0 h0 H"
    and b: "load H b = Some (Obj_osc_Bundle tt dn subs)"
  shows "MakeOSCBundle_message b q H =
           Some ((H @ [Obj_osc_Message a args])[b := Obj_osc_Bundle tt (dn @ [length H]) subs])"
proof -
  have lq: "load H q = Some (Obj_OscMessage a args)" using load_agree[OF pre _ msg] by simp
  have bl: "b < length H" using b by (rule load_Some_less)
  have lb: "load (H @ [Obj_osc_Message a args]) b = Some (Obj_osc_Bundle tt dn subs)"
    using b bl by (simp add: load_append_old)
  show ?thesis
    by (simp add: MakeOSCBundle_message_def new_def lq update_new update_Some[OF lb])
qed

lemma MakeOSCBundle_messages_loop:
  assumes "list_all2 (port_msg_at 0 h0) mrefs ms"
    and "agree 0 h0 H" and "length h0 \<le> b"
    and "load H b = Some (Obj_osc_Bundle tt dn subs)"
    and "list_all2 (wire_msg_at (Suc b) H) dn dms"
    and "list_all2 (wire_at (Suc b) H) subs dws"
  shows "\<exists>H' refs. range_loop (MakeOSCBundle_message b) mrefs H = Some H' \<and>
           agree 0 h0 H' \<and>
           load H' b = Some (Obj_osc_Bundle tt (dn @ refs) subs) \<and>
           list_all2 (wire_msg_at (Suc b) H') (dn @ refs)
             (dms @ map (\<lambda>m. osc_Message (Address m) (Arguments m)) ms) \<and>
           list_all2 (wire_at (Suc b) H') subs dws"
  using assms
proof (induction mrefs ms arbitrary: H dn dms rule: list_all2_induct)
  case Nil
  then show ?case by (intro exI[of _ H] exI[of _ "[]"]) simp
next
  case (Cons q mrefs m ms)
  let ?H1 = "(H @ [Obj_osc_Message (Address m) (Arguments m)])
               [b := Obj_osc_Bundle tt (dn @ [length H]) subs]"
  have msg: "load h0 q = Some (Obj_OscMessage (Address m) (Arguments m))"
    using Cons.hyps(1) by (simp add: port_msg_at_def)
  have bl: "b < length H" using Cons.prems(3) by (rule load_Some_less)
  have step: "MakeOSCBundle_message b q H = Some ?H1"
    using MakeOSCBundle_message_step[OF msg Cons.prems(1) Cons.prems(3)] .
  have ag0: "agree 0 h0 ?H1"
    using Cons.prems(1,2) by (intro agree_update_above agree_trans[OF _ agree_append]) 
  have agb: "agree (Suc b) H ?H1"
    by (intro agree_trans[OF agree_append agree_update_below]) simp
  have lb: "load ?H1 b = Some (Obj_osc_Bundle tt (dn @ [length H]) subs)"
    using bl by (simp add: load_update_same)
  have new_msg: "wire_msg_at (Suc b) ?H1 (length H) (osc_Message (Address m) (Arguments m))"
    using bl by (simp add: wire_msg_at_def load_update_other)
  have old: "list_all2 (wire_msg_at (Suc b) ?H1) dn dms"
    using Cons.prems(4) wire_msg_at_agree[OF agb] by (rule list_all2_mono)
  have msgs: "list_all2 (wire_msg_at (Suc b) ?H1) (dn @ [length H])
      (dms @ [osc_Message (Address m) (Arguments m)])"
    using old new_msg by (simp add: list_all2_appendI)
  have subs: "list_all2 (wire_at (Suc b) ?H1) subs dws"
    using Cons.prems(5) wire_at_agree[OF agb] by (rule list_all2_mono)
  from Cons.IH[OF ag0 Cons.prems(2) lb msgs subs] obtain H' refs where
    "range_loop (MakeOSCBundle_message b) mrefs ?H1 = Some H'" "agree 0 h0 H'"
    "load H' b = Some (Obj_osc_Bundle tt ((dn @ [length H]) @ refs) subs)"
    "list_all2 (wire_msg_at (Suc b) H') ((dn @ [length H]) @ refs)
       ((dms @ [osc_Message (Address m) (Arguments m)])
        @ map (\<lambda>m. osc_Message (Address m) (Arguments m)) ms)"
    "list_all2 (wire_at (Suc b) H') subs dws"
    by blast
  then show ?case
    using step by (intro exI[of _ H'] exI[of _ "length H # refs"]) simp
qed

lemma append_sub_wire_step:
  assumes tr: "translate H q = Some (H1, s)" and pre: "agree 0 H H1"
    and b: "load H b = Some (Obj_osc_Bundle tt msgs dn)"
  shows "append_sub translate b q H = Some (H1[b := Obj_osc_Bundle tt msgs (dn @ [s])])"
proof -
  have "load H1 b = Some (Obj_osc_Bundle tt msgs dn)"
    using load_agree[OF pre _ b] by simp
  then show ?thesis
    by (simp add: append_sub_def tr update_Some)
qed

lemma MakeOSCBundle_subs_loop:
  assumes tr: "\<And>H p w. port_at 0 H p w \<Longrightarrow> portable_depth w \<le> fuel \<Longrightarrow>
            \<exists>H' q. translate H p = Some (H', q) \<and> agree 0 H H' \<and>
              wire_at (length H) H' q (MakeOSCBundle w)"
    and "list_all2 (port_at 0 h0) brefs ws"
    and "\<forall>w \<in> set ws. portable_depth w \<le> fuel"
    and "agree 0 h0 H" and "length h0 \<le> b"
    and "load H b = Some (Obj_osc_Bundle tt msgs dn)"
    and "list_all2 (wire_msg_at (Suc b) H) msgs dms"
    and "list_all2 (wire_at (Suc b) H) dn dws"
  shows "\<exists>H' refs. range_loop (append_sub translate b) brefs H = Some H' \<and>
           agree 0 h0 H' \<and>
           load H' b = Some (Obj_osc_Bundle tt msgs (dn @ refs)) \<and>
           list_all2 (wire_msg_at (Suc b) H') msgs dms \<and>
           list_all2 (wire_at (Suc b) H') (dn @ refs) (dws @ map MakeOSCBundle ws)"
  using assms(2-)
proof (induction brefs ws arbitrary: H dn dws rule: list_all2_induct)
  case Nil
  then show ?case by (intro exI[of _ H] exI[of _ "[]"]) simp
next
  case (Cons q brefs w ws)
  have bl: "b < length H" using Cons.prems(4) by (rule load_Some_less)
  have "port_at 0 H q w" using port_at_agree[OF Cons.prems(2) Cons.hyps(1)] .
  moreover have "portable_depth w \<le> fuel" using Cons.prems(1) by simp
  ultimately obtain H1 s where t: "translate H q = Some (H1, s)" and a1: "agree 0 H H1"
    and p1: "wire_at (length H) H1 s (MakeOSCBundle w)"
    using tr by blast
  let ?H2 = "H1[b := Obj_osc_Bundle tt msgs (dn @ [s])]"
  have step: "append_sub translate b q H = Some ?H2"
    using append_sub_wire_step[of translate H q H1 s b tt msgs dn] t a1 Cons.prems(4) by simp
  have bl1: "b < length H1" using bl a1 by (simp add: agree_def)
  have ag0: "agree 0 h0 ?H2"
    using agree_update_above[OF agree_trans[OF Cons.prems(2) a1] Cons.prems(3)] .
  have agb: "agree (Suc b) H ?H2"
    using agree_trans[OF agree_mono[OF a1] agree_update_below] by simp
  have agb1: "agree (Suc b) H1 ?H2"
    by (rule agree_update_below) simp
  have lb: "load ?H2 b = Some (Obj_osc_Bundle tt msgs (dn @ [s]))"
    using bl1 by (simp add: load_update_same)
  have msgs: "list_all2 (wire_msg_at (Suc b) ?H2) msgs dms"
    using Cons.prems(5) wire_msg_at_agree[OF agb] by (rule list_all2_mono)
  have old: "list_all2 (wire_at (Suc b) ?H2) dn dws"
    using Cons.prems(6) wire_at_agree[OF agb] by (rule list_all2_mono)
  have "wire_at (Suc b) H1 s (MakeOSCBundle w)"
    using wire_at_mono[OF _ p1] bl by simp
  then have "wire_at (Suc b) ?H2 s (MakeOSCBundle w)"
    using wire_at_agree[OF agb1] by simp
  then have subs: "list_all2 (wire_at (Suc b) ?H2) (dn @ [s]) (dws @ [MakeOSCBundle w])"
    using old by (simp add: list_all2_appendI)
  have d: "\<forall>w \<in> set ws. portable_depth w \<le> fuel" using Cons.prems(1) by simp
  from Cons.IH[OF d ag0 Cons.prems(3) lb msgs subs] obtain H' refs where
    "range_loop (append_sub translate b) brefs ?H2 = Some H'" "agree 0 h0 H'"
    "load H' b = Some (Obj_osc_Bundle tt msgs ((dn @ [s]) @ refs))"
    "list_all2 (wire_msg_at (Suc b) H') msgs dms"
    "list_all2 (wire_at (Suc b) H') ((dn @ [s]) @ refs)
       ((dws @ [MakeOSCBundle w]) @ map MakeOSCBundle ws)"
    by blast
  then show ?case
    using step by (intro exI[of _ H'] exI[of _ "s # refs"]) simp
qed

lemma portable_depth_sub: "w \<in> set bs \<Longrightarrow> portable_depth w \<le> foldr max (map portable_depth bs) 0"
  by (induction bs) auto

lemma MakeOSCBundle_h_correct:
  "port_at 0 h p w \<Longrightarrow> portable_depth w \<le> fuel \<Longrightarrow>
     \<exists>h' q. MakeOSCBundle_h fuel h p = Some (h', q) \<and> agree 0 h h' \<and>
       wire_at (length h) h' q (MakeOSCBundle w)"
proof (induction fuel arbitrary: h p w)
  case 0
  then show ?case by (cases w) simp
next
  case (Suc fuel)
  obtain tt ms bs where w: "w = OscBundle tt ms bs" by (cases w)
  from Suc.prems(1) w obtain mrefs brefs where
    ld: "load h p = Some (Obj_OscBundle tt mrefs brefs)"
    and m: "list_all2 (port_msg_at 0 h) mrefs ms"
    and b: "list_all2 (port_at 0 h) brefs bs"
    by (auto simp: port_all_at_list_all2 split: option.splits object.splits)
  let ?b = "length h"
  let ?H0 = "h @ [Obj_osc_Bundle tt [] []]"
  have lb0: "load ?H0 ?b = Some (Obj_osc_Bundle tt [] [])" by simp
  have e1: "list_all2 (wire_msg_at (Suc ?b) ?H0) [] []"
    and e2: "list_all2 (wire_at (Suc ?b) ?H0) [] []"
    by simp_all
  from MakeOSCBundle_messages_loop[OF m agree_append order_refl lb0 e1 e2]
  obtain H1 refs where l1: "range_loop (MakeOSCBundle_message ?b) mrefs ?H0 = Some H1"
    and a1: "agree 0 h H1"
    and lb1: "load H1 ?b = Some (Obj_osc_Bundle tt refs [])"
    and m1: "list_all2 (wire_msg_at (Suc ?b) H1) refs
               (map (\<lambda>m. osc_Message (Address m) (Arguments m)) ms)"
    and s1: "list_all2 (wire_at (Suc ?b) H1) [] []"
    by auto
  have d: "\<forall>w \<in> set bs. portable_depth w \<le> fuel"
    using Suc.prems(2) w portable_depth_sub[of _ bs] by fastforce
  from MakeOSCBundle_subs_loop[of fuel "MakeOSCBundle_h fuel", OF Suc.IH b d a1 order_refl lb1 m1 s1]
  obtain H2 srefs where l2: "range_loop (append_sub (MakeOSCBundle_h fuel) ?b) brefs H1 = Some H2"
    and a2: "agree 0 h H2"
    and lb2: "load H2 ?b = Some (Obj_osc_Bundle tt refs srefs)"
    and m2: "list_all2 (wire_msg_at (Suc ?b) H2) refs
               (map (\<lambda>m. osc_Message (Address m) (Arguments m)) ms)"
    and s2: "list_all2 (wire_at (Suc ?b) H2) srefs (map MakeOSCBundle bs)"
    by auto
  have res: "MakeOSCBundle_h (Suc fuel) h p = Some (H2, ?b)"
    by (simp add: ld new_def l1 l2)
  have m3: "list_all2 (wire_msg_at ?b H2) refs
               (map (\<lambda>m. osc_Message (Address m) (Arguments m)) ms)"
    using m2 wire_msg_at_mono[of ?b "Suc ?b"] by (rule list_all2_mono) simp
  have s3: "list_all2 (wire_at ?b H2) srefs (map MakeOSCBundle bs)"
    using s2 wire_at_mono[of ?b "Suc ?b"] by (rule list_all2_mono) simp
  have "wire_at ?b H2 ?b (MakeOSCBundle w)"
    unfolding w MakeOSCBundle_map using lb2 m3 s3 by (simp add: wire_all_at_list_all2)
  then show ?case using res a2 by blast
qed

lemma heap_round_trip_portable:
  assumes "port_at 0 h p x"
  shows "\<exists>h1 q h2 p'.
           MakeOSCBundle_h (portable_depth x) h p = Some (h1, q) \<and>
           makeBundle_h (wire_depth (MakeOSCBundle x)) h1 q = Some (h2, p') \<and>
           prefix h h1 \<and> prefix h1 h2 \<and>
           wire_at 0 h2 q (MakeOSCBundle x) \<and> port_at 0 h2 p x \<and> port_at 0 h2 p' x"
proof -
  obtain h1 q where 1: "MakeOSCBundle_h (portable_depth x) h p = Some (h1, q)" and a1: "agree 0 h h1"
    and w1: "wire_at (length h) h1 q (MakeOSCBundle x)"
    using MakeOSCBundle_h_correct[OF assms order_refl] by blast
  have w0: "wire_at 0 h1 q (MakeOSCBundle x)" using wire_at_mono[OF _ w1] by simp
  obtain h2 p' where 2: "makeBundle_h (wire_depth (MakeOSCBundle x)) h1 q = Some (h2, p')"
    and a2: "agree 0 h1 h2"
    and p2: "port_at (length h1) h2 p' (makeBundle (MakeOSCBundle x))"
    using makeBundle_h_correct[OF w0 order_refl] by blast
  have "port_at 0 h2 p' x"
    using port_at_mono[OF _ p2] by (simp add: makeBundle_MakeOSCBundle)
  moreover have "port_at 0 h2 p x"
    using port_at_agree[OF agree_trans[OF a1 a2] assms] .
  moreover have "wire_at 0 h2 q (MakeOSCBundle x)"
    using wire_at_agree[OF a2 w0] .
  ultimately show ?thesis
    using 1 2 agree_0_prefix[OF a1] agree_0_prefix[OF a2] by blast
qed

section \<open>Properties of the helpers\<close>

lemma HasPrefix_append: "HasPrefix (pre @ rest) pre"
  by (simp add: HasPrefix_def)

lemma HasPrefix_Replace1:
  "HasPrefix s old \<Longrightarrow> Replace1 s old rep = rep @ drop (length old) s"
  by (cases s) (auto simp: HasPrefix_def)

lemmas LogLevel_defs = ErrorLog_def ReceiveLog_def SendLog_def DebugLog_def

lemma Log_ErrorLog:
  "ErrorLog \<le> LogLevel r \<Longrightarrow> Log r ErrorLog format args = [LogEntry ErrorLog format args]"
  by (simp add: Log_def)

lemma Log_silent: "LogLevel r < l \<Longrightarrow> Log r l format args = []"
  by (simp add: Log_def)

lemma outbound_Nil [simp]: "outbound [] = []"
  by (simp add: outbound_def)

lemma outbound_Cons [simp]: "outbound (e # es) = datagram e @ outbound es"
  by (simp add: outbound_def)

lemma outbound_append [simp]: "outbound (xs @ ys) = outbound xs @ outbound ys"
  by (simp add: outbound_def)

lemma outbound_Log [simp]: "outbound (Log r l f a) = []"
  by (simp add: outbound_def Log_def LogLevel_defs)

lemma error_entries_append [simp]:
  "error_entries (xs @ ys) = error_entries xs @ error_entries ys"
  by (simp add: error_entries_def)

lemma sendAndLog_not_Return: "snd (sendAndLog env r p) \<noteq> Return"
  by (auto simp: sendAndLog_def LogLevel_defs split: prod.splits outcome.splits option.splits)

section \<open>Properties of the mapping loop\<close>

lemma commandBody_no_match:
  "\<not> commandMatches r (Topic m) cmd \<Longrightarrow> commandBody env r m cmd = ([], Next)"
  by (simp add: commandBody_def)

lemma commandBody_match_Next:
  assumes "commandMatches r (Topic m) cmd" and "snd (commandBody env r m cmd) = Next"
  shows "\<exists>arguments. commandBody env r m cmd =
           sendAndLog env r (PMessage (osc_Message (RelayCommand.Command cmd) arguments))"
  using assms
  by (auto simp: commandBody_def Let_def NewMessage_def split: sum.splits if_splits)

lemma commandBody_disallow:
  assumes "DisallowPayload cmd" and "commandMatches r (Topic m) cmd"
  shows "commandBody env r m cmd =
           sendAndLog env r (PMessage (osc_Message (RelayCommand.Command cmd) (DefaultPayload cmd)))"
  using assms by (simp add: commandBody_def Let_def NewMessage_def)

lemma commandLoop_no_match:
  "list_all (\<lambda>cmd. \<not> commandMatches r (Topic m) cmd) cs \<Longrightarrow>
     commandLoop env r m cs = ([], Next)"
  by (induction cs) (simp_all add: commandBody_no_match)

lemma commandLoop_append:
  "commandLoop env r m (xs @ ys) =
     (case commandLoop env r m xs of
        (es, Next) \<Rightarrow> (case commandLoop env r m ys of (es', f) \<Rightarrow> (es @ es', f))
      | (es, Return) \<Rightarrow> (es, Return)
      | (es, Panic) \<Rightarrow> (es, Panic))"
  by (induction xs) (auto split: prod.splits flow.splits)

lemma commandLoop_Next_member:
  "commandLoop env r m cs = (es, Next) \<Longrightarrow> cmd \<in> set cs \<Longrightarrow>
     \<exists>pre post. es = pre @ fst (commandBody env r m cmd) @ post \<and>
       snd (commandBody env r m cmd) = Next"
proof (induction cs arbitrary: es)
  case Nil
  then show ?case by simp
next
  case (Cons c cs)
  obtain e1 where b: "commandBody env r m c = (e1, Next)"
    using Cons.prems(1) by (auto split: prod.splits flow.splits)
  obtain e2 where l: "commandLoop env r m cs = (e2, Next)" and es: "es = e1 @ e2"
    using Cons.prems(1) b by (auto split: prod.splits flow.splits)
  show ?case
  proof (cases "cmd = c")
    case True
    then have "es = [] @ fst (commandBody env r m cmd) @ e2" using b es by simp
    then show ?thesis using True b by (metis snd_conv)
  next
    case False
    then have "cmd \<in> set cs" using Cons.prems(2) by simp
    from Cons.IH[OF l this] obtain pre post where
      "e2 = pre @ fst (commandBody env r m cmd) @ post" "snd (commandBody env r m cmd) = Next"
      by blast
    then have "es = (e1 @ pre) @ fst (commandBody env r m cmd) @ post" using es by simp
    then show ?thesis using \<open>snd (commandBody env r m cmd) = Next\<close> by blast
  qed
qed

lemma commandBody_Return:
  assumes "commandBody env r m cmd = (es, Return)"
  shows "\<exists>err. es = Log r ErrorLog ''Json Error: %s'' [FString err]"
proof (cases "commandMatches r (Topic m) cmd")
  case False
  then show ?thesis using assms by (simp add: commandBody_def)
next
  case True
  let ?decoded = "if \<not> DisallowPayload cmd \<and> length (mqtt_Message.Payload m) \<noteq> 0
      then Unmarshal_arguments env (mqtt_Message.Payload m)
      else if length (DefaultPayload cmd) \<noteq> 0 then Inr (DefaultPayload cmd) else Inr []"
  show ?thesis
  proof (cases ?decoded)
    case (Inl err)
    then have "commandBody env r m cmd =
        (Log r ErrorLog ''Json Error: %s'' [FString err], Return)"
      using True by (simp add: commandBody_def Let_def)
    then show ?thesis using assms by auto
  next
    case (Inr arguments)
    then have "commandBody env r m cmd =
        sendAndLog env r (PMessage (osc_Message (RelayCommand.Command cmd) arguments))"
      using True by (simp add: commandBody_def Let_def NewMessage_def)
    then have "snd (commandBody env r m cmd) \<noteq> Return"
      using sendAndLog_not_Return[of env r
          "PMessage (osc_Message (RelayCommand.Command cmd) arguments)"]
      by simp
    then show ?thesis using assms by simp
  qed
qed

lemma commandBody_Return_error:
  "commandBody env r m cmd = (es, Return) \<Longrightarrow> ErrorLog \<le> LogLevel r \<Longrightarrow>
   error_entries es \<noteq> []"
  using commandBody_Return[of env r m cmd es]
  by (auto simp: Log_def error_entries_def)

lemma commandLoop_Return_error:
  "commandLoop env r m cs = (es, Return) \<Longrightarrow> ErrorLog \<le> LogLevel r \<Longrightarrow>
   error_entries es \<noteq> []"
proof (induction cs arbitrary: es)
  case Nil
  then show ?case by simp
next
  case (Cons c cs)
  obtain e1 f1 where b: "commandBody env r m c = (e1, f1)"
    by (cases "commandBody env r m c")
  show ?case
  proof (cases f1)
    case Next
    obtain e2 f2 where l: "commandLoop env r m cs = (e2, f2)"
      by (cases "commandLoop env r m cs")
    then have "es = e1 @ e2" "f2 = Return"
      using Cons.prems(1) b Next by simp_all
    then show ?thesis using Cons.IH[of e2] l Cons.prems(2) by simp
  next
    case Return
    then have "es = e1" using Cons.prems(1) b by simp
    then show ?thesis using commandBody_Return_error[of env r m c e1] b Return Cons.prems(2)
      by simp
  next
    case Panic
    then show ?thesis using Cons.prems(1) b by simp
  qed
qed

section \<open>Properties of the handler\<close>

lemma MqttOnEvent_Return:
  "commandLoop env r m (Commands r) = (es, Return) \<Longrightarrow>
   MqttOnEvent env r m =
     (Log r ReceiveLog ''<- [MQTT] %s: %s\<newline>''
        [FString (Topic m), FString (mqtt_Message.Payload m)] @ es, Returns ())"
  by (simp add: MqttOnEvent_def)

lemma MqttOnEvent_Panic:
  "commandLoop env r m (Commands r) = (es, Panic) \<Longrightarrow>
   MqttOnEvent env r m =
     (Log r ReceiveLog ''<- [MQTT] %s: %s\<newline>''
        [FString (Topic m), FString (mqtt_Message.Payload m)] @ es, Panics)"
  by (simp add: MqttOnEvent_def)

lemma MqttOnEvent_send_gate:
  assumes "HasPrefix (Topic m) (Relay.MqttTopic r @ ''/send'')"
    and "commandLoop env r m (Commands r) = (es, Next)"
    and "OscDisallowArbritaryCommand r"
  shows "MqttOnEvent env r m =
     (Log r ReceiveLog ''<- [MQTT] %s: %s\<newline>''
        [FString (Topic m), FString (mqtt_Message.Payload m)]
        @ es @ Log r ErrorLog ''Arbritary commands are disabled on this relay.'' [],
      Returns ())"
  using assms by (simp add: MqttOnEvent_def)

lemma MqttOnEvent_bundle_gate:
  assumes "Topic m = Relay.MqttTopic r @ ''/bundle/send''"
    and "commandLoop env r m (Commands r) = (es, Next)"
    and "OscDisallowArbritaryCommand r"
  shows "MqttOnEvent env r m =
     (Log r ReceiveLog ''<- [MQTT] %s: %s\<newline>''
        [FString (Topic m), FString (mqtt_Message.Payload m)]
        @ es @ Log r ErrorLog ''Arbritary commands are disabled on this relay.'' [],
      Returns ())"
  using assms by (simp add: MqttOnEvent_def Let_def)

lemma MqttOnEvent_send_ok:
  assumes "Topic m = Relay.MqttTopic r @ ''/send'' @ rest"
    and "commandLoop env r m (Commands r) = (es, Next)"
    and "\<not> OscDisallowArbritaryCommand r"
    and "(if mqtt_Message.Payload m = [] then Inr []
          else Unmarshal_arguments env (mqtt_Message.Payload m)) = Inr args"
  shows "MqttOnEvent env r m =
     (Log r ReceiveLog ''<- [MQTT] %s: %s\<newline>''
        [FString (Topic m), FString (mqtt_Message.Payload m)]
        @ es
        @ fst (sendAndLog env r (PMessage (osc_Message (if rest = [] then ''/'' else rest) args))),
      finish (snd (sendAndLog env r
        (PMessage (osc_Message (if rest = [] then ''/'' else rest) args)))))"
proof -
  have pre: "HasPrefix (Topic m) (Relay.MqttTopic r @ ''/send'')"
    using assms(1) HasPrefix_append[of "Relay.MqttTopic r @ ''/send''" rest] by simp
  then have "Replace1 (Topic m) (Relay.MqttTopic r @ ''/send'') [] = rest"
    using assms(1) by (simp add: HasPrefix_Replace1)
  then show ?thesis
    using assms(2-4) pre
    by (auto simp: MqttOnEvent_def Let_def NewMessage_def split: prod.splits if_splits)
qed

section \<open>Properties of the validation\<close>

lemma checkAgainst_None:
  "checkAgainst i relay b rest = None \<longleftrightarrow>
     (\<forall>k<length rest. b + k \<noteq> i \<longrightarrow>
        Relay.MqttTopic relay \<noteq> Relay.MqttTopic (rest ! k) \<and>
        OscBindPort relay \<noteq> OscBindPort (rest ! k))"
proof (induction rest arbitrary: b)
  case Nil
  then show ?case by simp
next
  case (Cons relay2 rest)
  show ?case
    by (simp add: Cons.IH All_less_Suc2)
qed

lemma checkAgainst_Some:
  "checkAgainst i relay b rest = Some e \<Longrightarrow>
     \<exists>k<length rest. b + k \<noteq> i \<and>
       ((e = TopicShared i \<and> Relay.MqttTopic relay = Relay.MqttTopic (rest ! k)) \<or>
        (e = BindPortShared i \<and> OscBindPort relay = OscBindPort (rest ! k)))"
proof (induction rest arbitrary: b)
  case Nil
  then show ?case by simp
next
  case (Cons relay2 rest)
  show ?case
  proof (cases "b \<noteq> i \<and> (Relay.MqttTopic relay = Relay.MqttTopic relay2 \<or> OscBindPort relay = OscBindPort relay2)")
    case True
    then have "b + 0 \<noteq> i \<and>
       ((e = TopicShared i \<and> Relay.MqttTopic relay = Relay.MqttTopic ((relay2 # rest) ! 0)) \<or>
        (e = BindPortShared i \<and> OscBindPort relay = OscBindPort ((relay2 # rest) ! 0)))"
      using Cons.prems by (auto split: if_splits)
    then show ?thesis by (intro exI[of _ 0]) simp
  next
    case False
    then have "checkAgainst i relay (Suc b) rest = Some e"
      using Cons.prems by (auto split: if_splits)
    from Cons.IH[OF this] obtain k where "k < length rest" "Suc b + k \<noteq> i"
      "(e = TopicShared i \<and> Relay.MqttTopic relay = Relay.MqttTopic (rest ! k)) \<or>
        (e = BindPortShared i \<and> OscBindPort relay = OscBindPort (rest ! k))"
      by blast
    then show ?thesis by (intro exI[of _ "Suc k"]) simp
  qed
qed

lemma checkRelays_None:
  "checkRelays all i rest = None \<longleftrightarrow>
     (\<forall>k<length rest. spec_relay_ok (rest ! k) \<and> checkAgainst (i + k) (rest ! k) 0 all = None)"
proof (induction rest arbitrary: i)
  case Nil
  then show ?case by simp
next
  case (Cons relay rest)
  show ?case
    by (simp add: Cons.IH All_less_Suc2 spec_relay_ok_def split: option.splits)
qed

lemma checkRelays_Some:
  "checkRelays all i rest = Some e \<Longrightarrow>
     \<exists>k<length rest.
       (e = MqttRequired (i + k) \<and> (MqttHost (rest ! k) = [] \<or> MqttPort (rest ! k) = 0)) \<or>
       (e = TopicRequired (i + k) \<and> Relay.MqttTopic (rest ! k) = []) \<or>
       (e = EndpointRequired (i + k) \<and> OscBindAddr (rest ! k) = [] \<and> OscHost (rest ! k) = []) \<or>
       (spec_relay_ok (rest ! k) \<and> checkAgainst (i + k) (rest ! k) 0 all = Some e)"
proof (induction rest arbitrary: i)
  case Nil
  then show ?case by simp
next
  case (Cons relay rest)
  let ?P = "\<lambda>i k rest. (e = MqttRequired (i + k) \<and> (MqttHost (rest ! k) = [] \<or> MqttPort (rest ! k) = 0)) \<or>
       (e = TopicRequired (i + k) \<and> Relay.MqttTopic (rest ! k) = []) \<or>
       (e = EndpointRequired (i + k) \<and> OscBindAddr (rest ! k) = [] \<and> OscHost (rest ! k) = []) \<or>
       (spec_relay_ok (rest ! k) \<and> checkAgainst (i + k) (rest ! k) 0 all = Some e)"
  show ?case
  proof (cases "spec_relay_ok relay \<and> checkAgainst i relay 0 all = None")
    case True
    then have "checkRelays all (Suc i) rest = Some e"
      using Cons.prems by (auto simp: spec_relay_ok_def split: if_splits)
    from Cons.IH[OF this] obtain k where "k < length rest" "?P (Suc i) k rest" by blast
    then have "Suc k < length (relay # rest) \<and> ?P i (Suc k) (relay # rest)" by simp
    then show ?thesis by blast
  next
    case False
    then have "?P i 0 (relay # rest)"
      using Cons.prems by (auto simp: spec_relay_ok_def split: if_splits option.splits)
    then have "0 < length (relay # rest) \<and> ?P i 0 (relay # rest)" by simp
    then show ?thesis by blast
  qed
qed

lemma deriveBindPort_fields [simp]:
  "MqttHost (deriveBindPort r) = MqttHost r"
  "MqttPort (deriveBindPort r) = MqttPort r"
  "Relay.MqttTopic (deriveBindPort r) = Relay.MqttTopic r"
  "OscBindAddr (deriveBindPort r) = OscBindAddr r"
  "OscHost (deriveBindPort r) = OscHost r"
  "OscBindPort (deriveBindPort r) = derived_bind_port r"
  by (simp_all add: deriveBindPort_def derived_bind_port_def)

lemma spec_relay_ok_derive [simp]: "spec_relay_ok (deriveBindPort r) = spec_relay_ok r"
  by (simp add: spec_relay_ok_def)

lemma ReadConfig_valid:
  assumes "accepted rs"
  shows "ReadConfig rs = Inr (map deriveBindPort rs)"
proof -
  let ?rs = "map deriveBindPort rs"
  have ne: "rs \<noteq> []" and ok: "list_all spec_relay_ok rs"
    and dt: "distinct (map Relay.MqttTopic rs)" and dp: "distinct (map derived_bind_port rs)"
    using assms by (simp_all add: accepted_def)
  have "checkAgainst k (?rs ! k) 0 ?rs = None" if "k < length rs" for k
  proof -
    have "Relay.MqttTopic (rs ! k) \<noteq> Relay.MqttTopic (rs ! j) \<and> derived_bind_port (rs ! k) \<noteq> derived_bind_port (rs ! j)"
      if "j < length rs" "j \<noteq> k" for j
      using dt dp that \<open>k < length rs\<close> by (auto simp: distinct_conv_nth)
    then show ?thesis using that by (simp add: checkAgainst_None)
  qed
  moreover have "spec_relay_ok (rs ! k)" if "k < length rs" for k
    using ok that by (simp add: list_all_length)
  ultimately have "checkRelays ?rs 0 ?rs = None"
    by (simp add: checkRelays_None)
  then show ?thesis using ne by (simp add: ReadConfig_def)
qed

lemma ReadConfig_Inr_valid:
  assumes "ReadConfig rs = Inr rs'"
  shows "accepted rs"
proof -
  let ?rs = "map deriveBindPort rs"
  have ne: "rs \<noteq> []" using assms by (auto simp: ReadConfig_def split: if_splits)
  then have none: "checkRelays ?rs 0 ?rs = None"
    using assms by (auto simp: ReadConfig_def Let_def split: if_splits option.splits)
  then have ok: "spec_relay_ok (rs ! k)" and ca: "checkAgainst k (?rs ! k) 0 ?rs = None"
    if "k < length rs" for k
    using that by (simp_all add: checkRelays_None)
  have diff: "Relay.MqttTopic (rs ! k) \<noteq> Relay.MqttTopic (rs ! j) \<and> derived_bind_port (rs ! k) \<noteq> derived_bind_port (rs ! j)"
    if "k < length rs" "j < length rs" "j \<noteq> k" for k j
    using ca[OF that(1)] that by (simp add: checkAgainst_None)
  have "distinct (map Relay.MqttTopic rs)" "distinct (map derived_bind_port rs)"
    using diff by (auto simp: distinct_conv_nth)
  moreover have "list_all spec_relay_ok rs" using ok by (simp add: list_all_length)
  ultimately show ?thesis using ne by (simp add: accepted_def)
qed

lemma ReadConfig_Inl_offending:
  assumes "ReadConfig rs = Inl e"
  shows "reported rs e"
proof (cases "rs = []")
  case True
  then show ?thesis using assms by (simp add: ReadConfig_def)
next
  case False
  let ?rs = "map deriveBindPort rs"
  have some: "checkRelays ?rs 0 ?rs = Some e"
    using assms False by (auto simp: ReadConfig_def Let_def split: option.splits)
  from checkRelays_Some[OF some] obtain k where k: "k < length rs" and
    d: "(e = MqttRequired k \<and> (MqttHost (rs ! k) = [] \<or> MqttPort (rs ! k) = 0)) \<or>
       (e = TopicRequired k \<and> Relay.MqttTopic (rs ! k) = []) \<or>
       (e = EndpointRequired k \<and> OscBindAddr (rs ! k) = [] \<and> OscHost (rs ! k) = []) \<or>
       (spec_relay_ok (rs ! k) \<and> checkAgainst k (?rs ! k) 0 ?rs = Some e)"
    by auto
  show ?thesis
  proof (cases "checkAgainst k (?rs ! k) 0 ?rs = Some e")
    case True
    from checkAgainst_Some[OF True] obtain j where "j < length rs" "j \<noteq> k"
      "(e = TopicShared k \<and> Relay.MqttTopic (rs ! k) = Relay.MqttTopic (rs ! j)) \<or>
        (e = BindPortShared k \<and> derived_bind_port (rs ! k) = derived_bind_port (rs ! j))"
      using k by auto
    then show ?thesis using k by (auto intro!: bexI[of _ j])
  next
    case False
    then show ?thesis using d k by auto
  qed
qed

lemma ReadConfig_BindPortShared:
  assumes "ReadConfig rs = Inl e" "rs \<noteq> []" "list_all spec_relay_ok rs"
    "distinct (map Relay.MqttTopic rs)"
  shows "\<exists>k<length rs. e = BindPortShared k"
proof -
  let ?rs = "map deriveBindPort rs"
  have some: "checkRelays ?rs 0 ?rs = Some e"
    using assms(1,2) by (auto simp: ReadConfig_def Let_def split: option.splits)
  from checkRelays_Some[OF some] obtain k where k: "k < length rs" and
    d: "(e = MqttRequired k \<and> (MqttHost (rs ! k) = [] \<or> MqttPort (rs ! k) = 0)) \<or>
       (e = TopicRequired k \<and> Relay.MqttTopic (rs ! k) = []) \<or>
       (e = EndpointRequired k \<and> OscBindAddr (rs ! k) = [] \<and> OscHost (rs ! k) = []) \<or>
       (spec_relay_ok (rs ! k) \<and> checkAgainst k (?rs ! k) 0 ?rs = Some e)"
    by auto
  have "spec_relay_ok (rs ! k)" using assms(3) k by (simp add: list_all_length)
  then have ca: "checkAgainst k (?rs ! k) 0 ?rs = Some e"
    using d by (auto simp: spec_relay_ok_def)
  from checkAgainst_Some[OF ca] obtain j where j: "j < length rs" "j \<noteq> k" and
    "(e = TopicShared k \<and> Relay.MqttTopic (rs ! k) = Relay.MqttTopic (rs ! j)) \<or>
        (e = BindPortShared k \<and> derived_bind_port (rs ! k) = derived_bind_port (rs ! j))"
    using k by auto
  moreover have "Relay.MqttTopic (rs ! k) \<noteq> Relay.MqttTopic (rs ! j)"
    using assms(4) j k by (auto simp: distinct_conv_nth)
  ultimately show ?thesis using k by auto
qed

lemma client_only_bind_port: "client_only r \<Longrightarrow> derived_bind_port r = 0"
  by (simp add: client_only_def derived_bind_port_def)

lemma two_client_only_invalid:
  assumes "i < length rs" "j < length rs" "i \<noteq> j" "client_only (rs ! i)" "client_only (rs ! j)"
  shows "\<not> accepted rs"
proof
  assume "accepted rs"
  then have "distinct (map derived_bind_port rs)" by (simp add: accepted_def)
  then have "derived_bind_port (rs ! i) \<noteq> derived_bind_port (rs ! j)"
    using assms(1-3) by (auto simp: distinct_conv_nth)
  then show False using assms(4,5) by (simp add: client_only_bind_port)
qed

lemma deriveBindPort_update: "deriveBindPort r = r\<lparr>OscBindPort := derived_bind_port r\<rparr>"
  by (simp add: deriveBindPort_def derived_bind_port_def)

text \<open>
  The spec's valid lists and the accepted ones. A relay's optional bind port, when it has
  one, is the integer the nested loop compares, and is not 0; a relay without one is
  compared as 0. So every accepted list is valid, and a valid list is accepted when at
  most one of its relays has no bind port.
\<close>

lemma spec_bind_port_Some:
  "spec_bind_port r = Some p \<Longrightarrow> derived_bind_port r = p \<and> p \<noteq> 0"
  by (auto simp: spec_bind_port_def derived_bind_port_def split: if_splits)

lemma spec_bind_port_None: "spec_bind_port r = None \<Longrightarrow> derived_bind_port r = 0"
  by (auto simp: spec_bind_port_def derived_bind_port_def split: if_splits)

lemma map_filter_spec_bind_port:
  "List.map_filter spec_bind_port rs =
     map derived_bind_port (filter (\<lambda>r. spec_bind_port r \<noteq> None) rs)"
  by (induction rs) (auto simp: map_filter_simps dest: spec_bind_port_Some)

lemma accepted_spec_valid: "accepted rs \<Longrightarrow> spec_valid rs"
  by (simp add: accepted_def spec_valid_def map_filter_spec_bind_port distinct_map_filter)

lemma ReadConfig_rejects:
  assumes "\<not> spec_valid rs"
  shows "\<exists>e. ReadConfig rs = Inl e"
proof (cases "ReadConfig rs")
  case (Inl e)
  then show ?thesis by blast
next
  case (Inr rs')
  then show ?thesis using ReadConfig_Inr_valid accepted_spec_valid assms by blast
qed

lemma distinct_one_None:
  "distinct (List.map_filter f xs) \<Longrightarrow> length (filter (\<lambda>x. f x = None) xs) \<le> 1 \<Longrightarrow>
   distinct (map f xs)"
proof (induction xs)
  case Nil
  then show ?case by simp
next
  case (Cons x xs)
  show ?case
  proof (cases "f x")
    case None
    then have e: "filter (\<lambda>x. f x = None) xs = []"
      using Cons.prems(2) by simp
    then have "None \<notin> f ` set xs"
      by (auto simp: filter_empty_conv)
    moreover have "distinct (map f xs)"
      using Cons.IH Cons.prems(1) None e by (simp add: map_filter_simps)
    ultimately show ?thesis using None by simp
  next
    case (Some p)
    then have d: "p \<notin> set (List.map_filter f xs)" "distinct (List.map_filter f xs)"
      using Cons.prems(1) by (simp_all add: map_filter_simps)
    have "Some p \<notin> f ` set xs"
    proof
      assume "Some p \<in> f ` set xs"
      then obtain y where "y \<in> set xs" "f y = Some p" by auto
      then have "p \<in> set (List.map_filter f xs)"
        by (force simp: map_filter_def)
      then show False using d(1) by simp
    qed
    moreover have "distinct (map f xs)"
      using Cons.IH d(2) Cons.prems(2) Some by simp
    ultimately show ?thesis using Some by simp
  qed
qed

lemma spec_valid_accepted:
  assumes "spec_valid rs"
    and "length (filter (\<lambda>r. spec_bind_port r = None) rs) \<le> 1"
  shows "accepted rs"
proof -
  have d: "distinct (map spec_bind_port rs)"
    using assms by (simp add: spec_valid_def distinct_one_None)
  have g: "derived_bind_port r = (case spec_bind_port r of None \<Rightarrow> 0 | Some p \<Rightarrow> p)" for r :: "'a Relay"
    using spec_bind_port_Some[of r] spec_bind_port_None[of r]
    by (cases "spec_bind_port r") simp_all
  have i: "inj_on (\<lambda>v. case v of None \<Rightarrow> 0 | Some p \<Rightarrow> p) (set (map spec_bind_port rs))"
  proof (rule inj_onI)
    fix v w
    assume v: "v \<in> set (map spec_bind_port rs)" and w: "w \<in> set (map spec_bind_port rs)"
      and e: "(case v of None \<Rightarrow> 0 | Some p \<Rightarrow> p) = (case w of None \<Rightarrow> (0::int) | Some p \<Rightarrow> p)"
    have nz: "p \<noteq> 0" if "Some p \<in> set (map spec_bind_port rs)" for p
      using that spec_bind_port_Some by force
    show "v = w"
      using e nz v w by (cases v; cases w) auto
  qed
  have "map derived_bind_port rs =
      map (\<lambda>v. case v of None \<Rightarrow> 0 | Some p \<Rightarrow> p) (map spec_bind_port rs)"
    by (simp add: g)
  then have "distinct (map derived_bind_port rs)"
    using d i by (simp only: distinct_map)
  then show ?thesis using assms(1) by (simp add: accepted_def spec_valid_def)
qed

lemma ReadConfig_derived_port:
  "spec_valid derived_port_config \<and>
   ReadConfig derived_port_config =
     Inr [sample_relay\<lparr>OscBindAddr := ''10.0.0.1'', OscBindPort := 2223\<rparr>,
          sample_relay\<lparr>MqttTopic := ''osc/two''\<rparr>]"
  by (simp add: spec_valid_def spec_relay_ok_def spec_bind_port_def map_filter_simps
      ReadConfig_def deriveBindPort_def derived_port_config_def sample_relay_def)

lemma ReadConfig_accepts:
  assumes "spec_valid rs"
    and "length (filter (\<lambda>r. spec_bind_port r = None) rs) \<le> 1"
  shows "ReadConfig rs = Inr (map deriveBindPort rs)"
  using ReadConfig_valid[OF spec_valid_accepted[OF assms]] .

section \<open>Properties of the transport\<close>

lemma receive_ops_Nil [simp]: "receive_ops [] = []"
  by (simp add: receive_ops_def)

lemma receive_ops_Cons [simp]:
  "receive_ops (e # es) = (if is_receive_op e then e # receive_ops es else receive_ops es)"
  by (simp add: receive_ops_def)

lemma receive_ops_append [simp]: "receive_ops (xs @ ys) = receive_ops xs @ receive_ops ys"
  by (simp add: receive_ops_def)

lemma receive_ops_Log [simp]: "receive_ops (Log r l f xs) = []"
  by (simp add: receive_ops_def Log_def LogLevel_defs)

lemma receive_ops_OscSend: "receive_ops (fst (OscSend env r p)) = []"
  by (auto simp: OscSend_def Let_def receive_ops_def Log_def LogLevel_defs
      split: option.splits sum.splits osc_Packet.splits)

lemma receive_ops_sendAndLog: "receive_ops (fst (sendAndLog env r p)) = []"
  using receive_ops_OscSend[of env r "Some p"]
  by (auto simp: sendAndLog_def LogLevel_defs split: prod.splits outcome.splits option.splits)

lemma receive_ops_SendStatus [simp]: "receive_ops (SendStatus env r) = []"
  by (auto simp: SendStatus_def receive_ops_def Log_def LogLevel_defs split: sum.splits)

lemma receive_ops_MqttSubscribe [simp]: "receive_ops (MqttSubscribe env r t) = []"
  by (auto simp: MqttSubscribe_def receive_ops_def Log_def LogLevel_defs split: option.splits)

lemma receive_ops_commandBody: "receive_ops (fst (commandBody env r m cmd)) = []"
  using receive_ops_sendAndLog[of env r]
  by (auto simp: commandBody_def Let_def split: sum.splits)

lemma receive_ops_commandLoop: "receive_ops (fst (commandLoop env r m cmds)) = []"
proof (induction cmds)
  case Nil
  show ?case by simp
next
  case (Cons cmd cmds)
  show ?case
    using Cons.IH receive_ops_commandBody[of env r m cmd]
    by (auto split: prod.splits flow.splits)
qed

lemma fst_case_prod_pair: "fst (case p of (x, y) \<Rightarrow> (h x, g y)) = h (fst p)"
  by (cases p) simp

lemma receive_ops_MqttOnEvent: "receive_ops (fst (MqttOnEvent env r m)) = []"
proof -
  obtain es f where l: "commandLoop env r m (Commands r) = (es, f)"
    by (cases "commandLoop env r m (Commands r)")
  have es: "receive_ops es = []"
    using receive_ops_commandLoop[of env r m "Commands r"] l by simp
  show ?thesis
  proof (cases f)
    case Next
    show ?thesis
      unfolding MqttOnEvent_def Let_def l Next
      by (simp add: fst_case_prod_pair es receive_ops_sendAndLog split: sum.splits)
  next
    case Return
    show ?thesis by (simp add: MqttOnEvent_def l Return es)
  next
    case Panic
    show ?thesis by (simp add: MqttOnEvent_def l Panic es)
  qed
qed

lemma receive_ops_subscriptionTick: "receive_ops (fst (subscriptionTick env r s)) = []"
proof -
  have s: "\<And>p es' f'. sendAndLog env r p = (es', f') \<Longrightarrow> receive_ops es' = []"
    using receive_ops_sendAndLog[of env r] by (metis fst_conv)
  show ?thesis
    using s by (auto simp: subscriptionTick_def Let_def split: prod.splits)
qed

lemma receive_ops_Dispatch: "receive_ops (Dispatch env r p) = []"
  by (simp add: Dispatch_def Let_def split: option.splits osc_Packet.splits sum.splits)

lemma receive_ops_concat:
  "(\<And>x. x \<in> set xs \<Longrightarrow> receive_ops (f x) = []) \<Longrightarrow>
   receive_ops (concat (map f xs)) = []"
  by (induction xs) simp_all

lemma receive_ops_Start: "receive_ops (fst (Start env r)) = []"
  by (simp add: Start_def Let_def receive_ops_concat split: option.splits)

lemma Start_relay:
  assumes "Start env r = (es, Inr (r1, tasks))"
  shows "r1 = (if OscBindAddr r \<noteq> [] \<and> OscBindPort r \<noteq> 0
               then r\<lparr>OscServer := Some (OscBindAddr r, OscBindPort r)\<rparr> else r)"
    and "tasks = (if OscBindAddr r \<noteq> [] \<and> OscBindPort r \<noteq> 0 then [ServerTask] else [])
                 @ map SubscriptionTask (OscSubscriptions r)"
proof -
  have c: "Connect_error env (MqttHost r) (MqttPort r) (MqttClientId r) (MqttUser r)
      (MqttPassword r) = None"
    using assms
    by (cases "Connect_error env (MqttHost r) (MqttPort r) (MqttClientId r) (MqttUser r)
        (MqttPassword r)") (simp_all add: Start_def Let_def)
  have "snd (Start env r) =
      Inr (if OscBindAddr r \<noteq> [] \<and> OscBindPort r \<noteq> 0
           then r\<lparr>OscServer := Some (OscBindAddr r, OscBindPort r)\<rparr> else r,
           (if OscBindAddr r \<noteq> [] \<and> OscBindPort r \<noteq> 0 then [ServerTask] else [])
           @ map SubscriptionTask (OscSubscriptions r))"
    by (simp add: Start_def Let_def c)
  then show "r1 = (if OscBindAddr r \<noteq> [] \<and> OscBindPort r \<noteq> 0
               then r\<lparr>OscServer := Some (OscBindAddr r, OscBindPort r)\<rparr> else r)"
    and "tasks = (if OscBindAddr r \<noteq> [] \<and> OscBindPort r \<noteq> 0 then [ServerTask] else [])
                 @ map SubscriptionTask (OscSubscriptions r)"
    using assms by simp_all
qed

lemma OscSend_socket_ops:
  assumes "ResolveUDPAddr env (OscHost r) (OscPort r) = Inr addr"
    and "MarshalBinary env p = Inr data"
  shows "OscServer r \<noteq> None \<Longrightarrow> OscServerConn r = Some c \<Longrightarrow>
            socket_ops (fst (OscSend env r (Some p))) = [WriteTo c data addr]"
    and "OscServer r = None \<Longrightarrow> DialUDP env addr = Inr conn \<Longrightarrow>
            socket_ops (fst (OscSend env r (Some p))) =
              [Dial addr, Write conn data, Close conn]"
  using assms
  by (auto simp: OscSend_def Let_def socket_ops_def Log_def LogLevel_defs split: osc_Packet.splits)

text \<open>
  Between the assignment of the server in \<^verbatim>\<open>Start\<close> and the bind in the server task
  the relay has a server and no socket: a send that resolves and encodes then calls
  \<^verbatim>\<open>WriteTo\<close> on the nil connection.
\<close>

lemma OscSend_unbound:
  assumes "ResolveUDPAddr env (OscHost r) (OscPort r) = Inr addr"
    and "MarshalBinary env p = Inr data"
    and "OscServer r \<noteq> None" and "OscServerConn r = None"
  shows "snd (OscSend env r (Some p)) = Panics"
  using assms by (auto simp: OscSend_def Let_def split: osc_Packet.splits)

text \<open>
  The steady state. Let \<^verbatim>\<open>Start\<close> return for a relay decoded from the configuration
  (its server unset), and let a packet resolve its peer and encode. If a bind address
  and a bind port are configured and the bind gives socket \<open>c\<close>: a server task is
  launched; it binds exactly that socket and runs the receive loop on it; and the send of
  the packet by the relay the task leaves has one socket operation, the write of the
  datagram to the peer through \<open>c\<close>. Otherwise: no server task is launched; neither
  \<^verbatim>\<open>Start\<close> nor the broker handler nor a subscription tick binds a socket or runs a
  receive loop; and the send of the packet dials a socket to the peer (no local address
  is given, so the source port is chosen by the system), writes the datagram to it and
  closes it, in this order and with no other socket operation.
\<close>

lemma socket_after_bind:
  assumes "OscServer r = None"
    and "Start env r = (es, Inr (r1, tasks))"
    and "ResolveUDPAddr env (OscHost r) (OscPort r) = Inr addr"
    and "MarshalBinary env p = Inr data"
  shows "(OscBindAddr r \<noteq> [] \<and> OscBindPort r \<noteq> 0 \<and>
          ListenPacket env (OscBindAddr r, OscBindPort r) = Inr c \<longrightarrow>
            ServerTask \<in> set tasks \<and>
            (\<exists>es' r2. serverTask env r1 = (es', Returns (Inr r2)) \<and>
               socket_ops es' = [Listen (OscBindAddr r, OscBindPort r) c, Serve c] \<and>
               socket_ops (fst (OscSend env r2 (Some p))) = [WriteTo c data addr])) \<and>
         (\<not> (OscBindAddr r \<noteq> [] \<and> OscBindPort r \<noteq> 0) \<longrightarrow>
            ServerTask \<notin> set tasks \<and> receive_ops es = [] \<and>
            receive_ops (fst (MqttOnEvent env r1 m)) = [] \<and>
            receive_ops (fst (subscriptionTick env r1 s)) = [] \<and>
            (DialUDP env addr = Inr conn \<longrightarrow>
               socket_ops (fst (OscSend env r1 (Some p))) =
                 [Dial addr, Write conn data, Close conn]))"
proof (intro conjI impI)
  assume b: "OscBindAddr r \<noteq> [] \<and> OscBindPort r \<noteq> 0 \<and>
      ListenPacket env (OscBindAddr r, OscBindPort r) = Inr c"
  have r1: "r1 = r\<lparr>OscServer := Some (OscBindAddr r, OscBindPort r)\<rparr>"
    using Start_relay(1)[OF assms(2)] b by simp
  show "ServerTask \<in> set tasks"
    using Start_relay(2)[OF assms(2)] b by simp
  let ?r2 = "r1\<lparr>OscServerConn := Some c\<rparr>"
  let ?es = "Log r1 DebugLog ''Starting OSC Server'' []
      @ [Listen (OscBindAddr r, OscBindPort r) c, Serve c]"
  have t: "serverTask env r1 = (?es, Returns (Inr ?r2))"
    using b by (simp add: serverTask_def r1)
  have o: "socket_ops ?es = [Listen (OscBindAddr r, OscBindPort r) c, Serve c]"
    by (simp add: socket_ops_def Log_def LogLevel_defs)
  have w: "socket_ops (fst (OscSend env ?r2 (Some p))) = [WriteTo c data addr]"
    using OscSend_socket_ops(1)[of env ?r2 addr p data c] assms(3,4) by (simp add: r1)
  show "\<exists>es' r2. serverTask env r1 = (es', Returns (Inr r2)) \<and>
      socket_ops es' = [Listen (OscBindAddr r, OscBindPort r) c, Serve c] \<and>
      socket_ops (fst (OscSend env r2 (Some p))) = [WriteTo c data addr]"
    using t o w by blast
next
  assume n: "\<not> (OscBindAddr r \<noteq> [] \<and> OscBindPort r \<noteq> 0)"
  have r1: "r1 = r"
    using Start_relay(1)[OF assms(2)] n by auto
  show "ServerTask \<notin> set tasks"
    using Start_relay(2)[OF assms(2)] n by auto
  show "receive_ops es = []"
    using receive_ops_Start[of env r] assms(2) by simp
  show "receive_ops (fst (MqttOnEvent env r1 m)) = []"
    by (rule receive_ops_MqttOnEvent)
  show "receive_ops (fst (subscriptionTick env r1 s)) = []"
    by (rule receive_ops_subscriptionTick)
  show "DialUDP env addr = Inr conn \<Longrightarrow>
      socket_ops (fst (OscSend env r1 (Some p))) = [Dial addr, Write conn data, Close conn]"
    using OscSend_socket_ops(2)[of env r addr p data conn] assms(1,3,4) by (simp add: r1)
qed

section \<open>The claims\<close>

text \<open>
  C1. For every portable bundle \<open>x\<close> and every wire bundle \<open>w\<close>, of any nesting depth:
  translating \<open>x\<close> to the wire form and back gives \<open>x\<close>, and translating \<open>w\<close> to the
  portable form and back gives \<open>w\<close>: the same time tag, the same messages with the same
  addresses and arguments in the same order, the same nested bundles in the same order.
  Neither direction mutates its input: on a heap where a pointer holds the bundle, each
  translation returns (with the depth of the bundle as fuel) a pointer that holds the
  translated bundle in objects that are all new, and the heap it leaves has the heap it
  was given as a prefix, so that every object that existed before the call is unchanged.
\<close>

theorem bundle_codec_round_trip:
  "makeBundle (MakeOSCBundle x) = x \<and>
   MakeOSCBundle (makeBundle w) = w \<and>
   (port_at 0 h p x \<longrightarrow>
      (\<exists>h' q. MakeOSCBundle_h (portable_depth x) h p = Some (h', q) \<and> prefix h h' \<and>
         wire_at (length h) h' q (MakeOSCBundle x))) \<and>
   (wire_at 0 g r w \<longrightarrow>
      (\<exists>g' q. makeBundle_h (wire_depth w) g r = Some (g', q) \<and> prefix g g' \<and>
         port_at (length g) g' q (makeBundle w)))"
proof -
  have a: "\<exists>h' q. MakeOSCBundle_h (portable_depth x) h p = Some (h', q) \<and> prefix h h' \<and>
      wire_at (length h) h' q (MakeOSCBundle x)" if "port_at 0 h p x"
    using MakeOSCBundle_h_correct[OF that order_refl] agree_0_prefix by blast
  have b: "\<exists>g' q. makeBundle_h (wire_depth w) g r = Some (g', q) \<and> prefix g g' \<and>
      port_at (length g) g' q (makeBundle w)" if "wire_at 0 g r w"
    using makeBundle_h_correct[OF that order_refl] agree_0_prefix by blast
  show ?thesis
    using a b by (simp add: makeBundle_MakeOSCBundle MakeOSCBundle_makeBundle)
qed

theorem bundle_codec_round_trip_witness:
  "makeBundle (MakeOSCBundle sample_bundle) = sample_bundle \<and>
   MakeOSCBundle (makeBundle sample_wire_bundle) = sample_wire_bundle \<and>
   port_at 0 sample_heap 2 sample_bundle \<and>
   (\<exists>h' q. MakeOSCBundle_h (portable_depth sample_bundle) sample_heap 2 = Some (h', q) \<and>
      prefix sample_heap h' \<and>
      wire_at (length sample_heap) h' q (MakeOSCBundle sample_bundle)) \<and>
   MakeOSCBundle_h 2 sample_heap 2 =
     Some (sample_heap @
       [Obj_osc_Bundle 3 [4] [5], Obj_osc_Message ''/a'' [''1''], Obj_osc_Bundle 4 [] []], 3) \<and>
   wire_at 0 sample_wire_heap 2 sample_wire_bundle \<and>
   (\<exists>g' q. makeBundle_h (wire_depth sample_wire_bundle) sample_wire_heap 2 = Some (g', q) \<and>
      prefix sample_wire_heap g' \<and>
      port_at (length sample_wire_heap) g' q (makeBundle sample_wire_bundle))"
proof -
  have p: "port_at 0 sample_heap 2 sample_bundle"
    by (simp add: sample_heap_def sample_bundle_def load_def port_msg_at_def)
  have w: "wire_at 0 sample_wire_heap 2 sample_wire_bundle"
    by (simp add: sample_wire_heap_def sample_wire_bundle_def load_def wire_msg_at_def)
  have e: "MakeOSCBundle_h 2 sample_heap 2 =
     Some (sample_heap @
       [Obj_osc_Bundle 3 [4] [5], Obj_osc_Message ''/a'' [''1''], Obj_osc_Bundle 4 [] []], 3)"
    by (simp add: numeral_2_eq_2 sample_heap_def load_def new_def update_def
        MakeOSCBundle_message_def append_sub_def)
  show ?thesis
    using bundle_codec_round_trip[of sample_bundle sample_wire_bundle sample_heap 2
        sample_wire_heap 2] p w e
    by simp
qed

text \<open>
  C2 (as amended). For every inbound broker message whose topic matches a mapping of the
  relay's command table and has the form \<open><namespace>/send<rest>\<close>: when the mapping
  loop runs to its end, the mapping's message, addressed at the mapping's command, has
  been dispatched in it, and the message is then processed by the generic-send branch as
  well: with arbitrary commands allowed and a payload that is empty or decodes, a further
  control message, addressed at \<open><rest>\<close> (or \<open>/\<close>), is dispatched after the mappings'.
\<close>

theorem mapping_and_generic_send_both_fire:
  assumes "cmd \<in> set (Commands r)"
    and "commandMatches r (Topic m) cmd"
    and "Topic m = Relay.MqttTopic r @ ''/send'' @ rest"
    and "commandLoop env r m (Commands r) = (es, Next)"
    and "\<not> OscDisallowArbritaryCommand r"
    and "(if mqtt_Message.Payload m = [] then Inr []
          else Unmarshal_arguments env (mqtt_Message.Payload m)) = Inr args"
  shows "(\<exists>pre post arguments.
            es = pre
              @ fst (sendAndLog env r
                  (PMessage (osc_Message (RelayCommand.Command cmd) arguments)))
              @ post) \<and>
         MqttOnEvent env r m =
           (Log r ReceiveLog ''<- [MQTT] %s: %s\<newline>''
              [FString (Topic m), FString (mqtt_Message.Payload m)]
              @ es
              @ fst (sendAndLog env r
                  (PMessage (osc_Message (if rest = [] then ''/'' else rest) args))),
            finish (snd (sendAndLog env r
              (PMessage (osc_Message (if rest = [] then ''/'' else rest) args)))))"
proof -
  obtain pre post where es: "es = pre @ fst (commandBody env r m cmd) @ post"
    and nx: "snd (commandBody env r m cmd) = Next"
    using commandLoop_Next_member[OF assms(4) assms(1)] by blast
  obtain arguments where
    "commandBody env r m cmd =
       sendAndLog env r (PMessage (osc_Message (RelayCommand.Command cmd) arguments))"
    using commandBody_match_Next[OF assms(2) nx] by blast
  then have "\<exists>pre post arguments.
      es = pre
        @ fst (sendAndLog env r (PMessage (osc_Message (RelayCommand.Command cmd) arguments)))
        @ post"
    using es by metis
  then show ?thesis
    using MqttOnEvent_send_ok[OF assms(3) assms(4) assms(5) assms(6)] by blast
qed

theorem mapping_and_generic_send_both_fire_witness:
  "mute_on_send \<in> set (Commands overlap_relay) \<and>
   commandMatches overlap_relay (Topic send_x) mute_on_send \<and>
   Topic send_x = Relay.MqttTopic overlap_relay @ ''/send'' @ ''/x'' \<and>
   commandLoop sample_env overlap_relay send_x (Commands overlap_relay) =
     ([Dial (''10.0.0.3'', 2223), Write 7 ''/ch/1/mute 0'', Close 7], Next) \<and>
   MqttOnEvent sample_env overlap_relay send_x =
     ([Dial (''10.0.0.3'', 2223), Write 7 ''/ch/1/mute 0'', Close 7,
       Dial (''10.0.0.3'', 2223), Write 7 ''/x '', Close 7], Returns ())"
proof -
  have loop: "commandLoop sample_env overlap_relay send_x (Commands overlap_relay) =
     ([Dial (''10.0.0.3'', 2223), Write 7 ''/ch/1/mute 0'', Close 7], Next)"
    by (simp add: overlap_relay_def sample_relay_def send_x_def mute_on_send_def
        sample_env_def commandBody_def commandMatches_def sendAndLog_def LogLevel_defs OscSend_def
        Log_def LogLevel_defs NewMessage_def)
  have mem: "mute_on_send \<in> set (Commands overlap_relay)"
    by (simp add: overlap_relay_def)
  have mt: "commandMatches overlap_relay (Topic send_x) mute_on_send"
    by (simp add: overlap_relay_def sample_relay_def send_x_def mute_on_send_def
        commandMatches_def)
  have tp: "Topic send_x = Relay.MqttTopic overlap_relay @ ''/send'' @ ''/x''"
    by (simp add: overlap_relay_def sample_relay_def send_x_def)
  have gate: "\<not> OscDisallowArbritaryCommand overlap_relay"
    by (simp add: overlap_relay_def sample_relay_def)
  have dec: "(if mqtt_Message.Payload send_x = [] then Inr []
     else Unmarshal_arguments sample_env (mqtt_Message.Payload send_x)) = Inr []"
    by (simp add: send_x_def)
  have "MqttOnEvent sample_env overlap_relay send_x =
     ([Dial (''10.0.0.3'', 2223), Write 7 ''/ch/1/mute 0'', Close 7,
       Dial (''10.0.0.3'', 2223), Write 7 ''/x '', Close 7], Returns ())"
    using mapping_and_generic_send_both_fire[OF mem mt tp loop gate dec]
    by (simp add: overlap_relay_def sample_relay_def send_x_def sample_env_def
        sendAndLog_def LogLevel_defs OscSend_def Log_def LogLevel_defs)
  then show ?thesis using loop mem mt tp by simp
qed

text \<open>
  C2 as stated fails: on the relay with the mapping on \<open>osc/test/send/x\<close>, a message on
  that topic matches the mapping and has the prefix \<open>osc/test/send\<close>, and two datagrams
  leave the relay: the mapping's and the generic send's.
\<close>

theorem mapping_excludes_generic_send_counterexample:
  "commandMatches overlap_relay (Topic send_x) mute_on_send \<and>
   mute_on_send \<in> set (Commands overlap_relay) \<and>
   HasPrefix (Topic send_x) (Relay.MqttTopic overlap_relay @ ''/send'') \<and>
   outbound (fst (MqttOnEvent sample_env overlap_relay send_x)) = [''/ch/1/mute 0'', ''/x ''] \<and>
   \<not> length (outbound (fst (MqttOnEvent sample_env overlap_relay send_x))) \<le> 1"
  by (simp add: MqttOnEvent_def overlap_relay_def sample_relay_def send_x_def
      mute_on_send_def sample_env_def commandBody_def commandMatches_def sendAndLog_def LogLevel_defs
      OscSend_def Log_def LogLevel_defs NewMessage_def HasPrefix_def)

text \<open>
  C3 fails on the code. On the relay with the two mappings on \<open>osc/test/x\<close>, a message
  whose payload is no JSON makes the first mapping's decode fail; the handler logs the
  error and returns. The second mapping, which disallows payloads and on its own sends
  its default arguments for this message, is not dispatched, and nothing leaves the relay.
\<close>

theorem decode_failure_leaves_handler:
  "commandMatches two_mappings_relay (Topic bad_payload) forward_a \<and>
   commandMatches two_mappings_relay (Topic bad_payload) fixed_b \<and>
   commandBody sample_env two_mappings_relay bad_payload fixed_b =
     ([Dial (''10.0.0.3'', 2223), Write 7 ''/b 1'', Close 7], Next) \<and>
   MqttOnEvent sample_env two_mappings_relay bad_payload =
     ([LogEntry ErrorLog ''Json Error: %s'' [FString ''invalid character'']], Returns ()) \<and>
   outbound (fst (MqttOnEvent sample_env two_mappings_relay bad_payload)) = []"
  by (simp add: MqttOnEvent_def two_mappings_relay_def sample_relay_def bad_payload_def
      forward_a_def fixed_b_def sample_env_def commandBody_def commandMatches_def
      sendAndLog_def LogLevel_defs OscSend_def Log_def LogLevel_defs NewMessage_def)

text \<open>
  C4. For every mapping with \<open>disallow_payload\<close> set and every inbound message on the
  mapping's topic, whatever its payload: the loop body for this mapping dispatches the
  control message addressed at the mapping's command with exactly the mapping's default
  arguments (and logs a send error, if any); neither the payload nor the decoder occurs
  in what it does. In the loop over a command table, when the mappings before it let the
  loop go on, this dispatch comes next.
\<close>

theorem default_payload_fallback:
  assumes "DisallowPayload cmd"
    and "commandMatches r topic cmd"
  shows "commandBody env r \<lparr>Topic = topic, Payload = payload\<rparr> cmd =
           sendAndLog env r
             (PMessage (osc_Message (RelayCommand.Command cmd) (DefaultPayload cmd))) \<and>
         (commandLoop env r \<lparr>Topic = topic, Payload = payload\<rparr> before = (es, Next) \<longrightarrow>
          commandLoop env r \<lparr>Topic = topic, Payload = payload\<rparr> (before @ cmd # after) =
            (case sendAndLog env r
                (PMessage (osc_Message (RelayCommand.Command cmd) (DefaultPayload cmd))) of
               (es1, Next) \<Rightarrow>
                 (case commandLoop env r \<lparr>Topic = topic, Payload = payload\<rparr> after of
                    (es2, f) \<Rightarrow> (es @ es1 @ es2, f))
             | (es1, Return) \<Rightarrow> (es @ es1, Return)
             | (es1, Panic) \<Rightarrow> (es @ es1, Panic)))"
proof -
  let ?m = "\<lparr>Topic = topic, Payload = payload\<rparr>"
  have body: "commandBody env r ?m cmd =
      sendAndLog env r (PMessage (osc_Message (RelayCommand.Command cmd) (DefaultPayload cmd)))"
    using commandBody_disallow[of cmd r ?m env] assms by simp
  then show ?thesis
    by (auto simp: commandLoop_append split: prod.splits flow.splits)
qed

theorem default_payload_fallback_witness:
  "DisallowPayload fixed_b \<and>
   commandMatches two_mappings_relay ''osc/test/x'' fixed_b \<and>
   commandBody sample_env two_mappings_relay \<lparr>Topic = ''osc/test/x'', Payload = ''[]''\<rparr> fixed_b =
     ([Dial (''10.0.0.3'', 2223), Write 7 ''/b 1'', Close 7], Next) \<and>
   commandLoop sample_env two_mappings_relay \<lparr>Topic = ''osc/test/x'', Payload = ''[]''\<rparr>
     ([forward_a] @ fixed_b # []) =
     ([Dial (''10.0.0.3'', 2223), Write 7 ''/a '', Close 7,
       Dial (''10.0.0.3'', 2223), Write 7 ''/b 1'', Close 7], Next)"
proof -
  have d: "DisallowPayload fixed_b" by (simp add: fixed_b_def)
  have mt: "commandMatches two_mappings_relay ''osc/test/x'' fixed_b"
    by (simp add: two_mappings_relay_def sample_relay_def fixed_b_def commandMatches_def)
  have before: "commandLoop sample_env two_mappings_relay
      \<lparr>Topic = ''osc/test/x'', Payload = ''[]''\<rparr> [forward_a] =
      ([Dial (''10.0.0.3'', 2223), Write 7 ''/a '', Close 7], Next)"
    by (simp add: two_mappings_relay_def sample_relay_def forward_a_def sample_env_def
        commandBody_def commandMatches_def sendAndLog_def LogLevel_defs OscSend_def Log_def LogLevel_defs NewMessage_def)
  have s: "sendAndLog sample_env two_mappings_relay
      (PMessage (osc_Message (RelayCommand.Command fixed_b) (DefaultPayload fixed_b))) =
      ([Dial (''10.0.0.3'', 2223), Write 7 ''/b 1'', Close 7], Next)"
    by (simp add: two_mappings_relay_def sample_relay_def fixed_b_def sample_env_def
        sendAndLog_def LogLevel_defs OscSend_def Log_def LogLevel_defs)
  note t = default_payload_fallback[OF d mt, of sample_env "''[]''" "[forward_a]"
      "[Dial (''10.0.0.3'', 2223), Write 7 ''/a '', Close 7]" "[]"]
  have body: "commandBody sample_env two_mappings_relay
      \<lparr>Topic = ''osc/test/x'', Payload = ''[]''\<rparr> fixed_b =
      ([Dial (''10.0.0.3'', 2223), Write 7 ''/b 1'', Close 7], Next)"
    using t s by (simp only:)
  have l: "commandLoop sample_env two_mappings_relay
      \<lparr>Topic = ''osc/test/x'', Payload = ''[]''\<rparr> ([forward_a] @ fixed_b # []) =
      (case sendAndLog sample_env two_mappings_relay
          (PMessage (osc_Message (RelayCommand.Command fixed_b) (DefaultPayload fixed_b))) of
         (es1, Next) \<Rightarrow>
           (case commandLoop sample_env two_mappings_relay
               \<lparr>Topic = ''osc/test/x'', Payload = ''[]''\<rparr> [] of
              (es2, f) \<Rightarrow>
                ([Dial (''10.0.0.3'', 2223), Write 7 ''/a '', Close 7] @ es1 @ es2, f))
       | (es1, Return) \<Rightarrow>
           ([Dial (''10.0.0.3'', 2223), Write 7 ''/a '', Close 7] @ es1, Return)
       | (es1, Panic) \<Rightarrow>
           ([Dial (''10.0.0.3'', 2223), Write 7 ''/a '', Close 7] @ es1, Panic))"
    using t before by blast
  have loop: "commandLoop sample_env two_mappings_relay
      \<lparr>Topic = ''osc/test/x'', Payload = ''[]''\<rparr> ([forward_a] @ fixed_b # []) =
     ([Dial (''10.0.0.3'', 2223), Write 7 ''/a '', Close 7,
       Dial (''10.0.0.3'', 2223), Write 7 ''/b 1'', Close 7], Next)"
    unfolding l s by simp
  show ?thesis using d mt body loop by (simp only: simp_thms)
qed

text \<open>
  C5 (as amended). For every relay with \<open>osc_disallow_arbritary_command\<close> set and every
  inbound message on a topic with the \<open><namespace>/send\<close> prefix or on
  \<open><namespace>/bundle/send\<close>: the generic branches send nothing, so the datagrams that
  leave the relay are exactly those of the mapping loop; when the handler returns and the
  relay's log level is at least the error level, an error entry has been logged; and when
  no mapping matches the topic, the handler does nothing but hand the receive entry and
  the error that arbitrary commands are disabled to the relay's logger, which writes
  neither when the log level is below the error level.
\<close>

theorem arbitrary_command_gate:
  assumes "OscDisallowArbritaryCommand r"
    and "HasPrefix (Topic m) (Relay.MqttTopic r @ ''/send'') \<or>
         Topic m = Relay.MqttTopic r @ ''/bundle/send''"
  shows "outbound (fst (MqttOnEvent env r m)) =
           outbound (fst (commandLoop env r m (Commands r))) \<and>
         (ErrorLog \<le> LogLevel r \<and> snd (MqttOnEvent env r m) = Returns () \<longrightarrow>
            error_entries (fst (MqttOnEvent env r m)) \<noteq> []) \<and>
         (list_all (\<lambda>cmd. \<not> commandMatches r (Topic m) cmd) (Commands r) \<longrightarrow>
            MqttOnEvent env r m =
              (Log r ReceiveLog ''<- [MQTT] %s: %s\<newline>''
                 [FString (Topic m), FString (mqtt_Message.Payload m)]
                 @ Log r ErrorLog ''Arbritary commands are disabled on this relay.'' [],
               Returns ()) \<and>
            (LogLevel r < ErrorLog \<longrightarrow> MqttOnEvent env r m = ([], Returns ())))"
proof -
  obtain es f where loop: "commandLoop env r m (Commands r) = (es, f)"
    by (cases "commandLoop env r m (Commands r)")
  let ?l0 = "Log r ReceiveLog ''<- [MQTT] %s: %s\<newline>''
               [FString (Topic m), FString (mqtt_Message.Payload m)]"
  let ?g = "Log r ErrorLog ''Arbritary commands are disabled on this relay.'' []"
  have next_case: "MqttOnEvent env r m = (?l0 @ es @ ?g, Returns ())" if "f = Next"
    using that assms loop MqttOnEvent_send_gate[of m r env es]
      MqttOnEvent_bundle_gate[of m r env es]
    by auto
  have a: "outbound (fst (MqttOnEvent env r m)) =
      outbound (fst (commandLoop env r m (Commands r)))"
  proof (cases f)
    case Next
    then show ?thesis using next_case loop by simp
  next
    case Return
    then show ?thesis using loop by (simp add: MqttOnEvent_Return)
  next
    case Panic
    then show ?thesis using loop by (simp add: MqttOnEvent_Panic)
  qed
  have b: "error_entries (fst (MqttOnEvent env r m)) \<noteq> []"
    if "ErrorLog \<le> LogLevel r" "snd (MqttOnEvent env r m) = Returns ()"
  proof (cases f)
    case Next
    then show ?thesis
      using next_case that(1) by (simp add: Log_ErrorLog error_entries_def)
  next
    case Return
    then show ?thesis
      using loop commandLoop_Return_error[of env r m "Commands r" es] that(1)
      by (simp add: MqttOnEvent_Return)
  next
    case Panic
    then show ?thesis using loop that(2) by (simp add: MqttOnEvent_Panic)
  qed
  have c: "MqttOnEvent env r m = (?l0 @ ?g, Returns ())"
    if "list_all (\<lambda>cmd. \<not> commandMatches r (Topic m) cmd) (Commands r)"
  proof -
    have "commandLoop env r m (Commands r) = ([], Next)"
      using that by (rule commandLoop_no_match)
    then show ?thesis using next_case loop by simp
  qed
  have d: "MqttOnEvent env r m = ([], Returns ())"
    if "list_all (\<lambda>cmd. \<not> commandMatches r (Topic m) cmd) (Commands r)"
      "LogLevel r < ErrorLog"
    using c[OF that(1)] that(2) by (simp add: Log_def LogLevel_defs)
  show ?thesis using a b c d by blast
qed

theorem arbitrary_command_gate_witness:
  "OscDisallowArbritaryCommand (gated_relay\<lparr>Commands := []\<rparr>) \<and>
   HasPrefix (Topic send_x) (Relay.MqttTopic (gated_relay\<lparr>Commands := []\<rparr>) @ ''/send'') \<and>
   list_all (\<lambda>cmd. \<not> commandMatches (gated_relay\<lparr>Commands := []\<rparr>) (Topic send_x) cmd)
     (Commands (gated_relay\<lparr>Commands := []\<rparr>)) \<and>
   ErrorLog \<le> LogLevel (gated_relay\<lparr>Commands := []\<rparr>) \<and>
   MqttOnEvent sample_env (gated_relay\<lparr>Commands := []\<rparr>) send_x =
     ([LogEntry ErrorLog ''Arbritary commands are disabled on this relay.'' []], Returns ()) \<and>
   error_entries (fst (MqttOnEvent sample_env (gated_relay\<lparr>Commands := []\<rparr>) send_x)) \<noteq> [] \<and>
   outbound (fst (MqttOnEvent sample_env (gated_relay\<lparr>Commands := []\<rparr>) send_x)) = [] \<and>
   OscDisallowArbritaryCommand silent_relay \<and>
   HasPrefix (Topic send_x) (Relay.MqttTopic silent_relay @ ''/send'') \<and>
   list_all (\<lambda>cmd. \<not> commandMatches silent_relay (Topic send_x) cmd)
     (Commands silent_relay) \<and>
   LogLevel silent_relay < ErrorLog \<and>
   MqttOnEvent sample_env silent_relay send_x = ([], Returns ())"
proof -
  let ?r = "gated_relay\<lparr>Commands := []\<rparr>"
  have g: "OscDisallowArbritaryCommand ?r" "OscDisallowArbritaryCommand silent_relay"
    by (simp_all add: silent_relay_def gated_relay_def sample_relay_def)
  have p: "HasPrefix (Topic send_x) (Relay.MqttTopic ?r @ ''/send'')"
    "HasPrefix (Topic send_x) (Relay.MqttTopic silent_relay @ ''/send'')"
    by (simp_all add: silent_relay_def gated_relay_def sample_relay_def send_x_def
        HasPrefix_def)
  have n: "list_all (\<lambda>cmd. \<not> commandMatches ?r (Topic send_x) cmd) (Commands ?r)"
    "list_all (\<lambda>cmd. \<not> commandMatches silent_relay (Topic send_x) cmd)
       (Commands silent_relay)"
    by (simp_all add: silent_relay_def sample_relay_def)
  have v: "ErrorLog \<le> LogLevel ?r" "LogLevel silent_relay < ErrorLog"
    by (simp_all add: silent_relay_def gated_relay_def sample_relay_def LogLevel_defs)
  have l: "Log ?r ReceiveLog ''<- [MQTT] %s: %s\<newline>''
      [FString (Topic send_x), FString (mqtt_Message.Payload send_x)] = []"
    "Log ?r ErrorLog ''Arbritary commands are disabled on this relay.'' [] =
      [LogEntry ErrorLog ''Arbritary commands are disabled on this relay.'' []]"
    by (simp_all add: Log_def LogLevel_defs gated_relay_def sample_relay_def)
  note t = arbitrary_command_gate[of ?r send_x sample_env]
  note t' = arbitrary_command_gate[of silent_relay send_x sample_env]
  have e: "MqttOnEvent sample_env ?r send_x =
     ([LogEntry ErrorLog ''Arbritary commands are disabled on this relay.'' []], Returns ())"
    using t g(1) p(1) n(1) l by simp
  have e': "MqttOnEvent sample_env silent_relay send_x = ([], Returns ())"
    using t' g(2) p(2) n(2) v(2) by blast
  have s: "snd (MqttOnEvent sample_env ?r send_x) = Returns ()"
    using e by simp
  have x: "error_entries (fst (MqttOnEvent sample_env ?r send_x)) \<noteq> []"
    using t g(1) p(1) v(1) s by blast
  show ?thesis using g p n v e e' x by simp
qed

text \<open>
  C5 as stated fails twice. On the relay with arbitrary commands disallowed and the
  mapping on \<open>osc/test/send/x\<close>, a message on that topic, which has the prefix
  \<open>osc/test/send\<close>, makes the mapping send its datagram. And on a relay with arbitrary
  commands disallowed and the log level \<open>-1\<close>, the same message is dropped with no error
  logged.
\<close>

theorem gate_blocks_every_packet_counterexample:
  "OscDisallowArbritaryCommand gated_relay \<and>
   HasPrefix (Topic send_x) (Relay.MqttTopic gated_relay @ ''/send'') \<and>
   MqttOnEvent sample_env gated_relay send_x =
     ([Dial (''10.0.0.3'', 2223), Write 7 ''/ch/1/mute 0'', Close 7,
       LogEntry ErrorLog ''Arbritary commands are disabled on this relay.'' []], Returns ()) \<and>
   outbound (fst (MqttOnEvent sample_env gated_relay send_x)) \<noteq> [] \<and>
   OscDisallowArbritaryCommand silent_relay \<and>
   HasPrefix (Topic send_x) (Relay.MqttTopic silent_relay @ ''/send'') \<and>
   MqttOnEvent sample_env silent_relay send_x = ([], Returns ()) \<and>
   error_entries (fst (MqttOnEvent sample_env silent_relay send_x)) = []"
  by (simp add: MqttOnEvent_def gated_relay_def silent_relay_def sample_relay_def send_x_def
      mute_on_send_def sample_env_def commandBody_def commandMatches_def sendAndLog_def
      OscSend_def Log_def LogLevel_defs NewMessage_def HasPrefix_def error_entries_def)

text \<open>
  C6 fails on the code. The list of two client-only relays with different topic namespace
  roots is valid in the spec's words: both relays pass the checks of one relay, the
  roots differ, and neither relay has a bind port, so no bind port is shared. The
  validation compares the two unset bind ports as the integer 0 and ends with the fatal
  exit for a shared bind port, reported for relay 0.
\<close>

theorem valid_client_only_pair_rejected:
  "spec_valid two_clients_config \<and>
   client_only (two_clients_config ! 0) \<and> client_only (two_clients_config ! 1) \<and>
   spec_bind_port (two_clients_config ! 0) = None \<and>
   spec_bind_port (two_clients_config ! 1) = None \<and>
   ReadConfig two_clients_config = Inl (BindPortShared 0)"
  by (simp add: spec_valid_def spec_relay_ok_def spec_bind_port_def client_only_def
      map_filter_simps ReadConfig_def deriveBindPort_def two_clients_config_def
      sample_relay_def)

text \<open>
  C7 fails on the code. A relay configured with a bind address and a bind port handles
  a message on \<open>osc/test/send/x\<close> in three ways, depending on when the message
  arrives. Before \<^verbatim>\<open>Start\<close> has set the server (the subscriptions are made earlier in
  \<^verbatim>\<open>Start\<close>), the datagram leaves through a freshly dialled socket. After
  \<^verbatim>\<open>Start\<close> has returned and before the server task has bound its socket, the relay
  has a server and no socket: the send calls \<^verbatim>\<open>WriteTo\<close> on the nil connection, the
  handler panics and no datagram leaves. Only after the server task has bound socket 3
  and serves on it is the datagram written through that socket.
\<close>

theorem send_before_socket_bound:
  "OscBindAddr bind_relay \<noteq> [] \<and> OscBindPort bind_relay \<noteq> 0 \<and>
   MqttOnEvent sample_env bind_relay send_x =
     ([Dial (''10.0.0.3'', 2223), Write 7 ''/x '', Close 7], Returns ()) \<and>
   Start sample_env bind_relay =
     ([Connect ''10.0.0.2'' 1883 ''osc_mqtt_bridge'' ''mqtt'' ''PASSWORD'',
       Subscribe ''osc/test/send/#'' 0, Subscribe ''osc/test/bundle/send'' 0,
       Subscribe ''osc/test/status/check'' 0, Publish ''osc/test/status'' 0 True ''{}''],
      Inr (bind_relay\<lparr>OscServer := Some (''10.0.0.1'', 2223)\<rparr>, [ServerTask])) \<and>
   OscServerConn (bind_relay\<lparr>OscServer := Some (''10.0.0.1'', 2223)\<rparr>) = None \<and>
   MqttOnEvent sample_env (bind_relay\<lparr>OscServer := Some (''10.0.0.1'', 2223)\<rparr>) send_x =
     ([], Panics) \<and>
   serverTask sample_env (bind_relay\<lparr>OscServer := Some (''10.0.0.1'', 2223)\<rparr>) =
     ([Listen (''10.0.0.1'', 2223) 3, Serve 3],
      Returns (Inr (bind_relay\<lparr>OscServer := Some (''10.0.0.1'', 2223),
        OscServerConn := Some 3\<rparr>))) \<and>
   MqttOnEvent sample_env
     (bind_relay\<lparr>OscServer := Some (''10.0.0.1'', 2223), OscServerConn := Some 3\<rparr>) send_x =
     ([WriteTo 3 ''/x '' (''10.0.0.3'', 2223)], Returns ())"
  by (simp add: MqttOnEvent_def Start_def serverTask_def MqttSubscribe_def SendStatus_def
      Let_def bind_relay_def sample_relay_def send_x_def sample_env_def sendAndLog_def
      OscSend_def Log_def LogLevel_defs NewMessage_def HasPrefix_def)

text \<open>
  C8 (as amended). For every inbound OSC packet: a single message whose arguments the JSON
  encoder accepts is published once, retained, on \<open><namespace>/cmd\<close> followed by the
  message's address, with the encoder's output for the argument list as payload; a bundle
  is translated by the codec and, when the encoder accepts the translation, published
  once, retained, on \<open><namespace>/bundle\<close> with the encoder's output as payload; for a
  packet of any other kind nothing is published and the error is handed to the relay's
  logger, which writes the error entry when the relay's log level is at least the error
  level and nothing when it is below; a nil packet has no effect at all. The only other
  effects are log entries of the receive and send levels.
\<close>

theorem inbound_packet_classification:
  "(Marshal_arguments env (osc_Arguments message) = Inr data \<longrightarrow>
      Dispatch env r (Some (PMessage message)) =
        Log r ReceiveLog ''<- [OSC] %s: %s''
          [FString (osc_Address message), FArguments (osc_Arguments message)]
        @ [Publish (Relay.MqttTopic r @ ''/cmd'' @ osc_Address message) 0 True data]
        @ Log r SendLog ''-> [MQTT] %s: %s''
            [FString (Relay.MqttTopic r @ ''/cmd'' @ osc_Address message), FString data]) \<and>
   (Marshal_bundle env (makeBundle bundle) = Inr data' \<longrightarrow>
      Dispatch env r (Some (PBundle bundle)) =
        Log r ReceiveLog ''<- [OSC] Bundle %s'' [FTime (osc_Timetag bundle)]
        @ [Publish (Relay.MqttTopic r @ ''/bundle'') 0 True data']
        @ Log r SendLog ''-> [MQTT] %s: %s''
            [FString (Relay.MqttTopic r @ ''/bundle''), FString data']) \<and>
   Dispatch env r (Some POther) = Log r ErrorLog ''Unknown OSC packet received.'' [] \<and>
   (ErrorLog \<le> LogLevel r \<longrightarrow>
      Dispatch env r (Some POther) = [LogEntry ErrorLog ''Unknown OSC packet received.'' []]) \<and>
   (LogLevel r < ErrorLog \<longrightarrow> Dispatch env r (Some POther) = []) \<and>
   Dispatch env r None = []"
proof -
  have "Timetag (makeBundle bundle) = osc_Timetag bundle"
    by (cases "bundle") (simp add: makeBundle_map del: makeBundle.simps)
  then show ?thesis
    by (simp add: Dispatch_def Let_def Log_ErrorLog Log_silent)
qed

theorem inbound_packet_classification_witness:
  "Marshal_arguments sample_env (osc_Arguments (osc_Message ''/ch/1/mute'' [''1''])) = Inr ''[1]'' \<and>
   Dispatch sample_env sample_relay (Some (PMessage (osc_Message ''/ch/1/mute'' [''1'']))) =
     [Publish ''osc/test/cmd/ch/1/mute'' 0 True ''[1]''] \<and>
   Marshal_bundle sample_env
     (makeBundle (osc_Bundle 3 [osc_Message ''/a'' [''1'']] [osc_Bundle 4 [] []])) = Inr ''{}'' \<and>
   Dispatch sample_env sample_relay
     (Some (PBundle (osc_Bundle 3 [osc_Message ''/a'' [''1'']] [osc_Bundle 4 [] []]))) =
     [Publish ''osc/test/bundle'' 0 True ''{}''] \<and>
   ErrorLog \<le> LogLevel sample_relay \<and>
   Dispatch sample_env sample_relay (Some POther) =
     [LogEntry ErrorLog ''Unknown OSC packet received.'' []] \<and>
   LogLevel silent_relay < ErrorLog \<and>
   Dispatch sample_env silent_relay (Some POther) = []"
proof -
  have a: "Marshal_arguments sample_env (osc_Arguments (osc_Message ''/ch/1/mute'' [''1''])) =
      Inr ''[1]''"
    by (simp add: sample_env_def)
  have b: "Marshal_bundle sample_env
     (makeBundle (osc_Bundle 3 [osc_Message ''/a'' [''1'']] [osc_Bundle 4 [] []])) = Inr ''{}''"
    by (simp add: sample_env_def)
  have v: "ErrorLog \<le> LogLevel sample_relay" "LogLevel silent_relay < ErrorLog"
    by (simp_all add: silent_relay_def sample_relay_def LogLevel_defs)
  note t = inbound_packet_classification[of sample_env "osc_Message ''/ch/1/mute'' [''1'']"
      "''[1]''" sample_relay "osc_Bundle 3 [osc_Message ''/a'' [''1'']] [osc_Bundle 4 [] []]"
      "''{}''"]
  note t' = inbound_packet_classification[of sample_env "osc_Message ''/ch/1/mute'' [''1'']"
      "''[1]''" silent_relay "osc_Bundle 3 [osc_Message ''/a'' [''1'']] [osc_Bundle 4 [] []]"
      "''{}''"]
  have m: "Dispatch sample_env sample_relay
      (Some (PMessage (osc_Message ''/ch/1/mute'' [''1'']))) =
      [Publish ''osc/test/cmd/ch/1/mute'' 0 True ''[1]'']"
    using t a by (simp add: Log_def LogLevel_defs sample_relay_def)
  have n: "Dispatch sample_env sample_relay
      (Some (PBundle (osc_Bundle 3 [osc_Message ''/a'' [''1'']] [osc_Bundle 4 [] []]))) =
      [Publish ''osc/test/bundle'' 0 True ''{}'']"
    using t b by (simp add: Log_def LogLevel_defs sample_relay_def)
  have o: "Dispatch sample_env sample_relay (Some POther) =
      [LogEntry ErrorLog ''Unknown OSC packet received.'' []]"
    using t v(1) by blast
  have o': "Dispatch sample_env silent_relay (Some POther) = []"
    using t' v(2) by blast
  show ?thesis using a b v m n o o' by simp
qed

text \<open>
  C8 as stated fails: with the log level \<open>-1\<close>, which the configuration accepts, a packet
  that is neither a message nor a bundle is dropped with no error logged.
\<close>

theorem unknown_packet_logs_error_counterexample:
  "LogLevel silent_relay = - 1 \<and>
   Dispatch sample_env silent_relay (Some POther) = [] \<and>
   error_entries (Dispatch sample_env silent_relay (Some POther)) = []"
  by (simp add: Dispatch_def Log_def LogLevel_defs silent_relay_def sample_relay_def
      error_entries_def)



text \<open>
  C10 (as amended). For every relay list with two or more client-only relays (no bind
  address, no bind port), validation fails; and whenever every relay passes the per-relay
  checks and no two relays share a topic namespace root, so that no earlier check stops
  the validation, the fatal exit is the one for a shared bind port.
\<close>

theorem client_only_relays_rejected:
  assumes "i < length rs" and "j < length rs" and "i \<noteq> j"
    and "client_only (rs ! i)" and "client_only (rs ! j)"
  shows "(\<exists>e. ReadConfig rs = Inl e) \<and>
         (list_all spec_relay_ok rs \<and> distinct (map Relay.MqttTopic rs) \<longrightarrow>
            (\<exists>k<length rs. ReadConfig rs = Inl (BindPortShared k)))"
proof -
  have nv: "\<not> accepted rs" using assms by (rule two_client_only_invalid)
  obtain e where e: "ReadConfig rs = Inl e"
  proof (cases "ReadConfig rs")
    case (Inl e)
    then show ?thesis using that by blast
  next
    case (Inr rs')
    then show ?thesis using ReadConfig_Inr_valid nv by blast
  qed
  have ne: "rs \<noteq> []" using assms(1) by auto
  have "\<exists>k<length rs. ReadConfig rs = Inl (BindPortShared k)"
    if "list_all spec_relay_ok rs" "distinct (map Relay.MqttTopic rs)"
    using ReadConfig_BindPortShared[OF e ne that] e by blast
  then show ?thesis using e by blast
qed

theorem client_only_relays_rejected_witness:
  "(0::nat) < length two_clients_config \<and> (1::nat) < length two_clients_config \<and>
   client_only (two_clients_config ! 0) \<and> client_only (two_clients_config ! 1) \<and>
   list_all spec_relay_ok two_clients_config \<and>
   distinct (map Relay.MqttTopic two_clients_config) \<and>
   ReadConfig two_clients_config = Inl (BindPortShared 0)"
proof -
  have l: "(0::nat) < length two_clients_config" "(1::nat) < length two_clients_config"
    by (simp_all add: two_clients_config_def)
  have c: "client_only (two_clients_config ! 0)" "client_only (two_clients_config ! 1)"
    by (simp_all add: two_clients_config_def sample_relay_def client_only_def)
  have ok: "list_all spec_relay_ok two_clients_config"
    by (simp add: two_clients_config_def sample_relay_def spec_relay_ok_def)
  have d: "distinct (map Relay.MqttTopic two_clients_config)"
    by (simp add: two_clients_config_def sample_relay_def)
  have "\<exists>k<length two_clients_config. ReadConfig two_clients_config = Inl (BindPortShared k)"
    using client_only_relays_rejected[OF l(1) l(2) _ c(1) c(2)] ok d by simp
  moreover have "ReadConfig two_clients_config = Inl (BindPortShared 0)"
    by (simp add: ReadConfig_def two_clients_config_def sample_relay_def deriveBindPort_def)
  ultimately show ?thesis using l c ok d by simp
qed

text \<open>
  C10 as stated fails: in a list of two client-only relays whose first relay has no broker
  host, validation stops at the broker check of relay 0, not at the bind ports.
\<close>

theorem client_only_duplicate_port_counterexample:
  "client_only (no_host_config ! 0) \<and> client_only (no_host_config ! 1) \<and>
   length no_host_config = 2 \<and>
   ReadConfig no_host_config = Inl (MqttRequired 0) \<and>
   \<not> (\<exists>k. ReadConfig no_host_config = Inl (BindPortShared k))"
  by (simp add: ReadConfig_def no_host_config_def sample_relay_def deriveBindPort_def
      client_only_def)

end
